theory Spec2Isabelle
  imports Main "HOL-Library.Sublist"
begin

section \<open>JavaScript strings\<close>

text \<open>
  A JavaScript string is modelled as a \<^typ>\<open>string\<close>: a list of code units, here the
  code units below 256 (the Latin-1 range). Equality of strings is equality of lists,
  as \<^verbatim>\<open>===\<close> and \<^verbatim>\<open>Array.prototype.includes\<close> compare strings.
\<close>

text \<open>
  The white space of \<^verbatim>\<open>String.prototype.trim\<close> and of the regular expression class
  \<^verbatim>\<open>\s\<close>: TAB, LF, VT, FF, CR, SPACE and NO-BREAK SPACE.
\<close>

definition isWhiteSpace :: "char \<Rightarrow> bool" where
  "isWhiteSpace c =
     (c = CHR 0x09 \<or> c = CHR 0x0A \<or> c = CHR 0x0B \<or> c = CHR 0x0C \<or> c = CHR 0x0D \<or>
      c = CHR 0x20 \<or> c = CHR 0xA0)"

definition trimStart :: "string \<Rightarrow> string" where
  "trimStart s = dropWhile isWhiteSpace s"

definition trimEnd :: "string \<Rightarrow> string" where
  "trimEnd s = rev (dropWhile isWhiteSpace (rev s))"

definition trim :: "string \<Rightarrow> string" where
  "trim s = trimEnd (trimStart s)"

text \<open>
  \<^verbatim>\<open>toLowerCase\<close> on the Latin-1 range: \<^verbatim>\<open>A-Z\<close> and the accented capitals
  \<^verbatim>\<open>U+00C0-U+00DE\<close> (but the multiplication sign \<^verbatim>\<open>U+00D7\<close>) move up by 32.
\<close>

definition toLowerChar :: "char \<Rightarrow> char" where
  "toLowerChar c =
     (let n = (of_char c :: nat)
      in if (65 \<le> n \<and> n \<le> 90) \<or> (192 \<le> n \<and> n \<le> 222 \<and> n \<noteq> 215)
         then char_of (n + 32) else c)"

definition toLowerCase :: "string \<Rightarrow> string" where
  "toLowerCase s = map toLowerChar s"

text \<open>\<^verbatim>\<open>s.startsWith(t)\<close> and \<^verbatim>\<open>s.includes(t)\<close>: \<open>t\<close> occurs in \<open>s\<close> at some position.\<close>

definition startsWith :: "string \<Rightarrow> string \<Rightarrow> bool" where
  "startsWith s t = (take (length t) s = t)"

fun str_includes :: "string \<Rightarrow> string \<Rightarrow> bool" where
  "str_includes [] t = (t = [])"
| "str_includes (c # cs) t = (startsWith (c # cs) t \<or> str_includes cs t)"

text \<open>
  The predicate both the convergence wait and the row filter of the search page apply:
  \<^verbatim>\<open>t.toLowerCase().includes(query.toLowerCase())\<close>.
\<close>

definition containsIgnoreCase :: "string \<Rightarrow> string \<Rightarrow> bool" where
  "containsIgnoreCase t query = str_includes (toLowerCase t) (toLowerCase query)"

text \<open>\<^verbatim>\<open>s.replace(/\s+/g, ' ')\<close>: every maximal run of white space becomes one space.\<close>

function collapseWhiteSpace :: "string \<Rightarrow> string" where
  "collapseWhiteSpace [] = []"
| "collapseWhiteSpace (c # cs) =
     (if isWhiteSpace c then CHR '' '' # collapseWhiteSpace (dropWhile isWhiteSpace cs)
      else c # collapseWhiteSpace cs)"
  by pat_completeness auto
termination
  by (relation "measure length") (auto simp: length_dropWhile_le less_Suc_eq_le)

text \<open>\<^verbatim>\<open>s.replace(/[()]/g, '')\<close> and \<^verbatim>\<open>s.replace(/\.$/, '')\<close>.\<close>

definition removeParens :: "string \<Rightarrow> string" where
  "removeParens s = filter (\<lambda>c. c \<noteq> CHR ''('' \<and> c \<noteq> CHR '')'') s"

definition removeFinalDot :: "string \<Rightarrow> string" where
  "removeFinalDot s = (if s \<noteq> [] \<and> last s = CHR ''.'' then butlast s else s)"

section \<open>Regular expressions\<close>

text \<open>
  The patterns of the page objects are sequences of single characters and character
  classes, each at most under one quantifier, with capture groups that are not nested.
  \<open>exec\<close> is the backtracking matcher of ECMAScript on such sequences: a greedy
  quantifier first tries to take one more character, a lazy one first tries to go on
  with the rest of the pattern. The result is the list of the texts the groups captured.
  A quantifier \<^verbatim>\<open>x+\<close> is written \<^verbatim>\<open>xx*\<close>, and \<^verbatim>\<open>x{1,2}\<close> is written \<^verbatim>\<open>xx?\<close>.
\<close>

datatype cls = Lit char | Dot | Digit | Word | Space

definition isDigit :: "char \<Rightarrow> bool" where
  "isDigit c = (let n = (of_char c :: nat) in 48 \<le> n \<and> n \<le> 57)"

definition isWordChar :: "char \<Rightarrow> bool" where
  "isWordChar c =
     (let n = (of_char c :: nat)
      in (48 \<le> n \<and> n \<le> 57) \<or> (65 \<le> n \<and> n \<le> 90) \<or> n = 95 \<or> (97 \<le> n \<and> n \<le> 122))"

text \<open>The dot matches every character but the line terminators.\<close>

fun cls_match :: "cls \<Rightarrow> char \<Rightarrow> bool" where
  "cls_match (Lit a) c = (c = a)"
| "cls_match Dot c = (c \<noteq> CHR 0x0A \<and> c \<noteq> CHR 0x0D)"
| "cls_match Digit c = isDigit c"
| "cls_match Word c = isWordChar c"
| "cls_match Space c = isWhiteSpace c"

datatype item = One cls | Opt cls | Star cls | LazyStar cls | GroupOpen | GroupClose | EndOfInput

text \<open>
  \<open>push g c\<close> records a consumed character: inside a group (\<open>g\<close>) it goes in front
  of the text of the group that is being captured.
\<close>

fun push :: "bool \<Rightarrow> char \<Rightarrow> string list \<Rightarrow> string list" where
  "push False c caps = caps"
| "push True c [] = [[c]]"
| "push True c (cap # caps) = (c # cap) # caps"

fun exec :: "bool \<Rightarrow> item list \<Rightarrow> string \<Rightarrow> string list option" where
  "exec g [] s = Some []"
| "exec g (GroupOpen # r) s = exec True r s"
| "exec g (GroupClose # r) s = map_option (Cons []) (exec False r s)"
| "exec g (EndOfInput # r) s = (if s = [] then exec g r s else None)"
| "exec g (One c # r) [] = None"
| "exec g (One c # r) (x # xs) =
     (if cls_match c x then map_option (push g x) (exec g r xs) else None)"
| "exec g (Opt c # r) [] = exec g r []"
| "exec g (Opt c # r) (x # xs) =
     (case (if cls_match c x then map_option (push g x) (exec g r xs) else None) of
        Some m \<Rightarrow> Some m
      | None \<Rightarrow> exec g r (x # xs))"
| "exec g (Star c # r) [] = exec g r []"
| "exec g (Star c # r) (x # xs) =
     (case (if cls_match c x then map_option (push g x) (exec g (Star c # r) xs) else None) of
        Some m \<Rightarrow> Some m
      | None \<Rightarrow> exec g r (x # xs))"
| "exec g (LazyStar c # r) [] = exec g r []"
| "exec g (LazyStar c # r) (x # xs) =
     (case exec g r (x # xs) of
        Some m \<Rightarrow> Some m
      | None \<Rightarrow>
          if cls_match c x then map_option (push g x) (exec g (LazyStar c # r) xs) else None)"

text \<open>
  \<^verbatim>\<open>s.match(re)\<close> for a pattern without the global flag: the match at the leftmost
  position where the pattern matches, \<open>None\<close> for \<^verbatim>\<open>null\<close>.
\<close>

fun str_match :: "item list \<Rightarrow> string \<Rightarrow> string list option" where
  "str_match re [] = exec False re []"
| "str_match re (x # xs) =
     (case exec False re (x # xs) of Some m \<Rightarrow> Some m | None \<Rightarrow> str_match re xs)"

definition lits :: "string \<Rightarrow> item list" where
  "lits s = map (\<lambda>c. One (Lit c)) s"

section \<open>The Document Interface\<close>

text \<open>
  The page objects drive the browser through Playwright locators. A locator call is a
  promise: it is fulfilled with a value or rejected with an error. \<open>await m f\<close> goes on
  with the value of \<open>m\<close>, or stops with its error; \<open>try_catch m h\<close> is
  \<^verbatim>\<open>try { m } catch (e) { h }\<close>.
\<close>

datatype error = TimeoutError | InteractionUnavailable | TypeError

definition await :: "error + 'a \<Rightarrow> ('a \<Rightarrow> error + 'b) \<Rightarrow> error + 'b" where
  "await m f = (case m of Inl e \<Rightarrow> Inl e | Inr x \<Rightarrow> f x)"

definition try_catch :: "error + 'a \<Rightarrow> (error \<Rightarrow> error + 'a) \<Rightarrow> error + 'a" where
  "try_catch m h = (case m of Inl e \<Rightarrow> h e | Inr x \<Rightarrow> Inr x)"

section \<open>HomePage: the welcome message\<close>

text \<open>The pattern \<^verbatim>\<open>/Logged in as .*?\((.*?)\) at (.*)\.?$/\<close>.\<close>

definition welcomeRegex :: "item list" where
  "welcomeRegex =
     lits ''Logged in as '' @
     [LazyStar Dot, One (Lit CHR ''(''), GroupOpen, LazyStar Dot, GroupClose] @
     lits '') at '' @
     [GroupOpen, Star Dot, GroupClose, Opt (Lit CHR ''.''), EndOfInput]"

text \<open>
  What the page answers to the two calls on the locator \<^verbatim>\<open>loginUserInfo\<close>:
  \<^verbatim>\<open>waitFor({ timeout: 5000 })\<close> and \<^verbatim>\<open>textContent()\<close> (\<open>None\<close> is \<^verbatim>\<open>null\<close>).
\<close>

record home_page =
  loginUserInfo_waitFor :: "error + unit"
  loginUserInfo_textContent :: "error + string option"

record welcome_parts =
  userInfo :: string
  ward :: string

definition getWelcomeMessageParts :: "home_page \<Rightarrow> error + welcome_parts option" where
  "getWelcomeMessageParts pg =
     try_catch
       (await (loginUserInfo_waitFor pg) (\<lambda>_.
        await (loginUserInfo_textContent pg) (\<lambda>content.
          case map_option trim content of
            None \<Rightarrow> Inr None
          | Some text \<Rightarrow>
              if text = [] then Inr None
              else (case str_match welcomeRegex text of
                      None \<Rightarrow> Inr None
                    | Some [g1, g2] \<Rightarrow>
                        Inr (Some \<lparr>userInfo = g1, ward = removeFinalDot (trim g2)\<rparr>)
                    | Some _ \<Rightarrow> Inl TypeError))))
       (\<lambda>err. Inr None)"

section \<open>PatientDetailPage: age, birthdate and patient id\<close>

text \<open>
  The patterns \<^verbatim>\<open>/\(\s*(\d{1,2}\.\w{3}\.\d{4})\s*\)/\<close> and \<^verbatim>\<open>/Patient ID\s*(.+)/\<close>.
\<close>

definition birthdateRegex :: "item list" where
  "birthdateRegex =
     [One (Lit CHR ''(''), Star Space, GroupOpen,
      One Digit, Opt Digit, One (Lit CHR ''.''),
      One Word, One Word, One Word, One (Lit CHR ''.''),
      One Digit, One Digit, One Digit, One Digit,
      GroupClose, Star Space, One (Lit CHR '')'')]"

definition patientIdRegex :: "item list" where
  "patientIdRegex = lits ''Patient ID'' @ [Star Space, GroupOpen, One Dot, Star Dot, GroupClose]"

text \<open>
  The three selectors \<^verbatim>\<open>getPatientBirthdate\<close> falls back to, in its order:
  \<^verbatim>\<open>text=/\d{1,2}\.\w{3}\.\d{4}/\<close>, \<^verbatim>\<open>[class*="birthdate"]\<close> and
  \<^verbatim>\<open>[data-testid*="birthdate"]\<close>.
\<close>

datatype selector = TextDate | ClassBirthdate | TestIdBirthdate

definition birthdateSelectors :: "selector list" where
  "birthdateSelectors = [TextDate, ClassBirthdate, TestIdBirthdate]"

text \<open>
  What the page answers to \<^verbatim>\<open>textContent()\<close> on the first element with the text
  \<^verbatim>\<open>/\d+ year\(s\)/\<close>, to \<^verbatim>\<open>textContent({ timeout: 2000 })\<close> on the first element
  of a selector, and to \<^verbatim>\<open>textContent()\<close> on the parent of the text "Patient ID".
\<close>

record detail_page =
  ageElement_textContent :: "error + string option"
  first_textContent :: "selector \<Rightarrow> error + string option"
  patientIdSection_textContent :: "error + string option"

definition getPatientAge :: "detail_page \<Rightarrow> error + string" where
  "getPatientAge pg =
     try_catch
       (await (ageElement_textContent pg) (\<lambda>ageText.
          case ageText of
            None \<Rightarrow> Inr []
          | Some t \<Rightarrow> if t = [] then Inr [] else Inr (trim (collapseWhiteSpace t))))
       (\<lambda>err. Inr [])"

text \<open>
  One round of the loop over the selectors: \<open>Some\<close> of the cleaned text when the
  round returns it, \<open>None\<close> when the loop goes on with the next selector.
\<close>

definition birthdateProbe :: "detail_page \<Rightarrow> selector \<Rightarrow> error + string option" where
  "birthdateProbe pg sel =
     try_catch
       (await (first_textContent pg sel) (\<lambda>birthdateText.
          case birthdateText of
            None \<Rightarrow> Inr None
          | Some t \<Rightarrow>
              if t \<noteq> [] \<and> trim t \<noteq> []
              then Inr (Some (trim (collapseWhiteSpace (removeParens t))))
              else Inr None))
       (\<lambda>err. Inr None)"

fun birthdateFromSelectors :: "detail_page \<Rightarrow> selector list \<Rightarrow> error + string" where
  "birthdateFromSelectors pg [] = Inr []"
| "birthdateFromSelectors pg (sel # rest) =
     (case birthdateProbe pg sel of
        Inl err \<Rightarrow> Inl err
      | Inr (Some cleanedText) \<Rightarrow> Inr cleanedText
      | Inr None \<Rightarrow> birthdateFromSelectors pg rest)"

definition getPatientBirthdate :: "detail_page \<Rightarrow> error + string" where
  "getPatientBirthdate pg =
     try_catch
       (await (getPatientAge pg) (\<lambda>ageText.
          case (if ageText \<noteq> [] then str_match birthdateRegex ageText else None) of
            Some [g1] \<Rightarrow> Inr (trim (collapseWhiteSpace g1))
          | Some _ \<Rightarrow> Inl TypeError
          | None \<Rightarrow> birthdateFromSelectors pg birthdateSelectors))
       (\<lambda>err. Inr [])"

definition getPatientId :: "detail_page \<Rightarrow> error + string" where
  "getPatientId pg =
     try_catch
       (await (patientIdSection_textContent pg) (\<lambda>patientIdText.
          Inr (case Option.bind patientIdText (str_match patientIdRegex) of
                 Some (g1 # _) \<Rightarrow> trim g1
               | _ \<Rightarrow> [])))
       (\<lambda>err. Inr [])"

section \<open>LoginPage: the location control\<close>

text \<open>
  What the page answers to the calls of the location control:
  \<^item> \<^verbatim>\<open>locationDropdown.evaluate(el => el.tagName === 'SELECT')\<close>, the probe of the shape;
  \<^item> \<^verbatim>\<open>locationOptions.first().waitFor()\<close> and \<^verbatim>\<open>locationOptions.allTextContents()\<close>;
  \<^item> \<^verbatim>\<open>locationButtons.first().waitFor({ timeout: 5000 })\<close> and
    \<^verbatim>\<open>locationButtons.allTextContents()\<close>;
  \<^item> \<^verbatim>\<open>isVisible()\<close> on the locator \<^verbatim>\<open>text="loc"\<close>;
  \<^item> \<^verbatim>\<open>locationDropdown.selectOption({ label })\<close>, the label \<open>None\<close> for \<^verbatim>\<open>undefined\<close>;
  \<^item> \<^verbatim>\<open>waitFor({ timeout: 10000 })\<close> and \<^verbatim>\<open>click()\<close> on the button of a location;
  \<^item> \<open>random\<close> stands for \<^verbatim>\<open>Math.random()\<close>: the index drawn from a list of \<open>n\<close>
    entries is \<open>random mod n\<close>, any index below \<open>n\<close>.
\<close>

record login_page =
  locationDropdown_isSelect :: "error + bool"
  locationOptions_waitFor :: "error + unit"
  locationOptions_allTextContents :: "error + string list"
  locationButtons_waitFor :: "error + unit"
  locationButtons_allTextContents :: "error + string list"
  text_isVisible :: "string \<Rightarrow> error + bool"
  selectOption_label :: "string option \<Rightarrow> error + unit"
  locationButton_waitFor :: "string \<Rightarrow> error + unit"
  locationButton_click :: "string \<Rightarrow> error + unit"
  random :: nat

text \<open>The list in \<^verbatim>\<open>getLocationOptionsFromButtons\<close> and the one of the test fixtures.\<close>

definition commonLocations :: "string list" where
  "commonLocations =
     [''Inpatient Ward'', ''Outpatient Clinic'', ''Laboratory'', ''Pharmacy'',
      ''Registration Desk'', ''Isolation Ward'']"

definition VALID_LOCATIONS :: "string list" where
  "VALID_LOCATIONS =
     [''Inpatient Ward'', ''Outpatient Clinic'', ''Laboratory'', ''Pharmacy'',
      ''Registration Desk'', ''Isolation Ward'']"

definition getLocationOptionsFromDropdown :: "login_page \<Rightarrow> error + string list" where
  "getLocationOptionsFromDropdown pg =
     await (locationOptions_waitFor pg) (\<lambda>_.
     await (locationOptions_allTextContents pg) (\<lambda>options.
       Inr (filter (\<lambda>option. trim option \<noteq> []) options)))"

text \<open>The loop that keeps the common locations whose text is visible on the page.\<close>

fun visibleLocations :: "login_page \<Rightarrow> string list \<Rightarrow> string list \<Rightarrow> error + string list" where
  "visibleLocations pg [] availableLocations = Inr availableLocations"
| "visibleLocations pg (loc # rest) availableLocations =
     (case text_isVisible pg loc of
        Inl err \<Rightarrow> Inl err
      | Inr visible \<Rightarrow>
          visibleLocations pg rest
            (if visible then availableLocations @ [loc] else availableLocations))"

definition getLocationOptionsFromButtons :: "login_page \<Rightarrow> error + string list" where
  "getLocationOptionsFromButtons pg =
     try_catch
       (await (locationButtons_waitFor pg) (\<lambda>_.
        await (locationButtons_allTextContents pg) (\<lambda>buttons.
          Inr (filter (\<lambda>option. trim option \<noteq> []) buttons))))
       (\<lambda>err.
          await (visibleLocations pg commonLocations []) (\<lambda>availableLocations.
            Inr (if length availableLocations > 0 then availableLocations
                 else commonLocations)))"

definition getLocationOptions :: "login_page \<Rightarrow> error + string list" where
  "getLocationOptions pg =
     try_catch
       (await (locationDropdown_isSelect pg) (\<lambda>isRealDropdown.
          if isRealDropdown then getLocationOptionsFromDropdown pg
          else getLocationOptionsFromButtons pg))
       (\<lambda>err. getLocationOptionsFromButtons pg)"

text \<open>
  \<^verbatim>\<open>options[Math.floor(Math.random() * options.length)]\<close>: \<^verbatim>\<open>undefined\<close> on the empty
  list. A template literal prints \<^verbatim>\<open>undefined\<close> as the text "undefined".
\<close>

definition randomElement :: "nat \<Rightarrow> string list \<Rightarrow> string option" where
  "randomElement r options =
     (if options = [] then None else Some (options ! (r mod length options)))"

definition templateString :: "string option \<Rightarrow> string" where
  "templateString v = (case v of None \<Rightarrow> ''undefined'' | Some s \<Rightarrow> s)"

text \<open>What \<^verbatim>\<open>selectLocation\<close> did to the page when it returns.\<close>

datatype selection = OptionSelected "string option" | ButtonClicked string

definition selectLocationButton :: "login_page \<Rightarrow> string \<Rightarrow> error + selection" where
  "selectLocationButton pg location =
     await (locationButton_waitFor pg location) (\<lambda>_.
     await (locationButton_click pg location) (\<lambda>_.
       Inr (ButtonClicked location)))"

definition selectLocation :: "login_page \<Rightarrow> string \<Rightarrow> error + selection" where
  "selectLocation pg location =
     await (locationDropdown_isSelect pg) (\<lambda>isRealDropdown.
       if isRealDropdown then
         (if location = ''random'' then
            await (getLocationOptionsFromDropdown pg) (\<lambda>options.
              let randomLocation = randomElement (random pg) options
              in await (selectOption_label pg randomLocation) (\<lambda>_.
                   Inr (OptionSelected randomLocation)))
          else
            await (selectOption_label pg (Some location)) (\<lambda>_.
              Inr (OptionSelected (Some location))))
       else
         (if location = ''random'' then
            await (getLocationOptionsFromButtons pg) (\<lambda>availableLocations.
              let randomLocation = randomElement (random pg) availableLocations
              in selectLocationButton pg (templateString randomLocation))
          else selectLocationButton pg location))"

section \<open>PatientSearchPage: the search\<close>

text \<open>
  A row of the result table (an element of \<^verbatim>\<open>table tbody tr:not(.dataTables_empty)\<close>):
  its \<^verbatim>\<open>textContent\<close> and the \<^verbatim>\<open>textContent\<close> of each of its \<^verbatim>\<open>td\<close> cells.
\<close>

record row =
  row_text :: string
  row_cells :: "string list"

text \<open>
  The trace of a run: the calls on the page in the order they were made, each with what
  it observed. The application changes the table on its own, so the environment gives the
  rows at every moment; the moment of a call is the number of calls made before it. Any
  call may fail (\<open>fails\<close>); \<open>polls\<close> is the number of times \<^verbatim>\<open>waitForFunction\<close>
  evaluates its predicate before its timeout.
\<close>

datatype event =
    Fill string
  | Press string
  | WaitForTimeout nat
  | AllTextContents "string list"
  | Poll bool
  | ExtractPatients nat

record search_env =
  domAt :: "nat \<Rightarrow> row list"
  fails :: "nat \<Rightarrow> bool"
  polls :: nat

type_synonym 'a io = "event list \<Rightarrow> (error + 'a) \<times> event list"

definition await_io :: "'a io \<Rightarrow> ('a \<Rightarrow> 'b io) \<Rightarrow> 'b io" where
  "await_io m f tr = (case m tr of (Inl e, tr') \<Rightarrow> (Inl e, tr') | (Inr x, tr') \<Rightarrow> f x tr')"

definition return_io :: "'a \<Rightarrow> 'a io" where
  "return_io x tr = (Inr x, tr)"

definition perform :: "search_env \<Rightarrow> event \<Rightarrow> unit io" where
  "perform env ev tr =
     (if fails env (length tr) then (Inl InteractionUnavailable, tr) else (Inr (), tr @ [ev]))"

definition allTextContents :: "search_env \<Rightarrow> (string list) io" where
  "allTextContents env tr =
     (if fails env (length tr) then (Inl InteractionUnavailable, tr)
      else (let texts = map row_text (domAt env (length tr))
            in (Inr texts, tr @ [AllTextContents texts])))"

text \<open>
  The values \<^verbatim>\<open>searchPatient\<close> passes to \<^verbatim>\<open>page.waitForFunction\<close>, and what a
  parameter of a JavaScript function holds when the call gives it no argument.
\<close>

datatype js_value =
    Undefined
  | Str string
  | StrArray "string list"
  | Options nat

definition param :: "js_value list \<Rightarrow> nat \<Rightarrow> js_value" where
  "param args i = (if i < length args then args ! i else Undefined)"

text \<open>
  \<^verbatim>\<open>v.includes(t)\<close> and \<^verbatim>\<open>v.toLowerCase()\<close>: reading a property of
  \<^verbatim>\<open>undefined\<close>, or calling a method the value has not, throws a \<^verbatim>\<open>TypeError\<close>.
\<close>

fun js_includes :: "js_value \<Rightarrow> string \<Rightarrow> error + bool" where
  "js_includes (StrArray xs) t = Inr (t \<in> set xs)"
| "js_includes (Str s) t = Inr (str_includes s t)"
| "js_includes v t = Inl TypeError"

fun js_toLowerCase :: "js_value \<Rightarrow> error + string" where
  "js_toLowerCase (Str s) = Inr (toLowerCase s)"
| "js_toLowerCase v = Inl TypeError"

text \<open>
  \<^verbatim>\<open>xs.some(f)\<close>, left to right, stopping at the first element \<^verbatim>\<open>f\<close> accepts or
  throws on.
\<close>

fun array_some :: "('a \<Rightarrow> error + bool) \<Rightarrow> 'a list \<Rightarrow> error + bool" where
  "array_some f [] = Inr False"
| "array_some f (x # xs) =
     (case f x of
        Inl err \<Rightarrow> Inl err
      | Inr True \<Rightarrow> Inr True
      | Inr False \<Rightarrow> array_some f xs)"

text \<open>
  The page function \<^verbatim>\<open>searchPatient\<close> hands to \<^verbatim>\<open>waitForFunction\<close>, applied to the
  arguments of its call: \<^verbatim>\<open>(selector, previousTexts, query) => ...\<close>. The rows are those
  of the selector, the first parameter. \<^verbatim>\<open>&&\<close> evaluates its right operand only when the
  left one holds.
\<close>

definition isNewMatch :: "js_value \<Rightarrow> js_value \<Rightarrow> string \<Rightarrow> error + bool" where
  "isNewMatch previousTexts query t =
     (case js_includes previousTexts t of
        Inl err \<Rightarrow> Inl err
      | Inr True \<Rightarrow> Inr False
      | Inr False \<Rightarrow>
          (case js_toLowerCase query of
             Inl err \<Rightarrow> Inl err
           | Inr q \<Rightarrow> Inr (str_includes (toLowerCase t) q)))"

definition newMatchingRow :: "js_value list \<Rightarrow> row list \<Rightarrow> error + bool" where
  "newMatchingRow args currentRows =
     (let previousTexts = param args 1;
          query = param args 2;
          currentTexts = map (\<lambda>r. trim (row_text r)) currentRows
      in if length currentTexts > 0
         then array_some (isNewMatch previousTexts query) currentTexts
         else Inr False)"

text \<open>
  \<^verbatim>\<open>page.waitForFunction(pageFunction, arg, options).catch(...)\<close>. Of the values that
  follow the page function in the call, the first is \<^verbatim>\<open>arg\<close>, the one argument the
  page function is called with at every poll; the second is read as the options; the call
  has no further parameter, and what follows is dropped. \<open>Matched\<close> when the page function
  returned true at a poll, \<open>TimedOut\<close> for the branch of \<^verbatim>\<open>catch\<close>, which a timeout
  and every other rejection take: a failing call, and a poll at which the page function
  throws.
\<close>

datatype wait_result = Matched | TimedOut

fun waitForFunction ::
  "search_env \<Rightarrow> (js_value list \<Rightarrow> row list \<Rightarrow> error + bool) \<Rightarrow> js_value list \<Rightarrow> nat
   \<Rightarrow> wait_result io" where
  "waitForFunction env pageFunction actuals 0 tr = (Inr TimedOut, tr)"
| "waitForFunction env pageFunction actuals (Suc n) tr =
     (if fails env (length tr) then (Inr TimedOut, tr @ [Poll False])
      else case pageFunction (take 1 actuals) (domAt env (length tr)) of
             Inl err \<Rightarrow> (Inr TimedOut, tr @ [Poll False])
           | Inr True \<Rightarrow> (Inr Matched, tr @ [Poll True])
           | Inr False \<Rightarrow> waitForFunction env pageFunction actuals n (tr @ [Poll False]))"

record patient =
  index :: nat
  name :: string
  patientId :: string
  gender :: string
  age :: string

text \<open>
  The loop of \<^verbatim>\<open>extractPatients\<close> over the rows, \<open>i\<close> the index of the first one.
  One call of \<^verbatim>\<open>extractPatients\<close> reads one state of the table: the rows are taken
  not to change between its locator calls.
\<close>

fun extractRows :: "string \<Rightarrow> nat \<Rightarrow> row list \<Rightarrow> patient list" where
  "extractRows query i [] = []"
| "extractRows query i (r # rows) =
     (let cells = row_cells r; cellCount = length cells
      in if cellCount \<ge> 2 then
           (let name = trim (cells ! 1);
                id = trim (cells ! 0);
                gender = (if cellCount > 2 then trim (cells ! 2) else []);
                age = (if cellCount > 3 then trim (cells ! 3) else [])
            in if name \<noteq> [] \<and> str_includes (toLowerCase name) (toLowerCase query)
               then [\<lparr>index = i, name = name, patientId = id, gender = gender, age = age\<rparr>]
               else [])
         else []) @
     extractRows query (i + 1) rows"

definition extractPatients :: "search_env \<Rightarrow> string \<Rightarrow> (patient list) io" where
  "extractPatients env query tr =
     (if fails env (length tr) then (Inl InteractionUnavailable, tr)
      else (let patients = extractRows query 0 (domAt env (length tr))
            in (Inr patients, tr @ [ExtractPatients (length patients)])))"

text \<open>
  The loop \<^verbatim>\<open>for (let attempt = 0; attempt < 5; attempt++)\<close> with its
  \<^verbatim>\<open>break\<close>; \<open>patients\<close> is the variable the loop assigns.
\<close>

function retryLoop :: "search_env \<Rightarrow> string \<Rightarrow> nat \<Rightarrow> patient list \<Rightarrow> (patient list) io" where
  "retryLoop env query attempt patients tr =
     (if attempt < 5 then
        (case extractPatients env query tr of
           (Inl err, tr') \<Rightarrow> (Inl err, tr')
         | (Inr found, tr') \<Rightarrow>
             if length found > 0 then (Inr found, tr')
             else (case perform env (WaitForTimeout 2000) tr' of
                     (Inl err, tr'') \<Rightarrow> (Inl err, tr'')
                   | (Inr _, tr'') \<Rightarrow> retryLoop env query (attempt + 1) found tr''))
      else (Inr patients, tr))"
  by pat_completeness auto
termination
  by (relation "measure (\<lambda>(env, query, attempt, patients, tr). 5 - attempt)") auto

declare retryLoop.simps [simp del]

text \<open>Decimal digits of a number, as a template literal prints it.\<close>

function numberToString :: "nat \<Rightarrow> string" where
  "numberToString n =
     (if n < 10 then [char_of (48 + n)]
      else numberToString (n div 10) @ [char_of (48 + n mod 10)])"
  by pat_completeness auto
termination
  by (relation "measure id") auto

declare numberToString.simps [simp del]

record search_result =
  success :: bool
  hasResults :: bool
  resultCount :: nat
  patients :: "patient list"
  message :: string

definition searchPatient :: "search_env \<Rightarrow> string \<Rightarrow> search_result io" where
  "searchPatient env query =
     await_io (perform env (Fill [])) (\<lambda>_.
     await_io (perform env (WaitForTimeout 300)) (\<lambda>_.
     await_io (allTextContents env) (\<lambda>oldRowTexts.
     await_io (perform env (Fill query)) (\<lambda>_.
     await_io (perform env (Press ''Enter'')) (\<lambda>_.
     await_io (waitForFunction env newMatchingRow
                 [Str ''table tbody tr:not(.dataTables_empty)'', StrArray oldRowTexts, Str query,
                  Options 10000]
                 (polls env)) (\<lambda>_.
     await_io (retryLoop env query 0 []) (\<lambda>found.
     return_io
       \<lparr>success = True,
        hasResults = (length found > 0),
        resultCount = length found,
        patients = found,
        message =
          (if length found > 0
           then ''Found '' @ numberToString (length found) @ '' patients matching '' @
                [CHR 0x22] @ query @ [CHR 0x22]
           else ''No patients found matching '' @ [CHR 0x22] @ query @ [CHR 0x22])\<rparr>)))))))"

section \<open>Predicates of the statements\<close>

text \<open>
  The shape of a date the birthdate pattern captures: one or two digits, a dot, three
  word characters, a dot, four digits.
\<close>

definition dateText :: "string \<Rightarrow> bool" where
  "dateText d =
     (list_all2 cls_match
        [Digit, Lit CHR ''.'', Word, Word, Word, Lit CHR ''.'', Digit, Digit, Digit, Digit] d \<or>
      list_all2 cls_match
        [Digit, Digit, Lit CHR ''.'', Word, Word, Word, Lit CHR ''.'', Digit, Digit, Digit, Digit] d)"

text \<open>
  A probe of a field fails when its locator resolves to nothing (the call is rejected),
  when there is no text, when the text is empty after trimming (a probe by selector), or
  when the pattern does not match it (a probe with a pattern).
\<close>

definition selectorProbeFails :: "error + string option \<Rightarrow> bool" where
  "selectorProbeFails outcome =
     (case outcome of Inl err \<Rightarrow> True | Inr None \<Rightarrow> True | Inr (Some t) \<Rightarrow> trim t = [])"

definition patternProbeFails :: "item list \<Rightarrow> error + string option \<Rightarrow> bool" where
  "patternProbeFails re outcome =
     (case outcome of
        Inl err \<Rightarrow> True
      | Inr None \<Rightarrow> True
      | Inr (Some t) \<Rightarrow> str_match re t = None)"

text \<open>The kinds of events of a trace of the search.\<close>

fun isPoll :: "event \<Rightarrow> bool" where
  "isPoll (Poll b) = True"
| "isPoll ev = False"

fun isExtract :: "event \<Rightarrow> bool" where
  "isExtract (ExtractPatients n) = True"
| "isExtract ev = False"

text \<open>
  The events that come after the search was triggered: the polls of the convergence wait,
  the extractions of the retry loop and its waits between two attempts.
\<close>

definition afterTrigger :: "event \<Rightarrow> bool" where
  "afterTrigger ev = (isPoll ev \<or> isExtract ev \<or> ev = WaitForTimeout 2000)"

text \<open>
  The first five calls of a search that gets as far as the convergence wait: the input is
  cleared, the rows are captured, the query is filled in and Enter is pressed.
\<close>

definition searchPrefix :: "string list \<Rightarrow> string \<Rightarrow> event list" where
  "searchPrefix snapshot query =
     [Fill [], WaitForTimeout 300, AllTextContents snapshot, Fill query, Press ''Enter'']"

section \<open>Properties of the string functions and of the matcher\<close>

lemma str_includes_iff: "str_includes s t \<longleftrightarrow> (\<exists>p q. s = p @ t @ q)"
proof (induction s)
  case Nil
  then show ?case by simp
next
  case (Cons c cs)
  have "startsWith (c # cs) t \<longleftrightarrow> (\<exists>q. c # cs = t @ q)"
    unfolding startsWith_def by (metis append_eq_conv_conj append_take_drop_id)
  moreover have "(\<exists>p q. c # cs = p @ t @ q) \<longleftrightarrow> (\<exists>q. c # cs = t @ q) \<or> (\<exists>p q. cs = p @ t @ q)"
  proof
    assume "\<exists>p q. c # cs = p @ t @ q"
    then obtain p q where pq: "c # cs = p @ t @ q" by blast
    show "(\<exists>q. c # cs = t @ q) \<or> (\<exists>p q. cs = p @ t @ q)"
    proof (cases p)
      case Nil
      with pq show ?thesis by auto
    next
      case (Cons a p')
      with pq show ?thesis by auto
    qed
  next
    assume "(\<exists>q. c # cs = t @ q) \<or> (\<exists>p q. cs = p @ t @ q)"
    then show "\<exists>p q. c # cs = p @ t @ q"
    proof
      assume "\<exists>q. c # cs = t @ q"
      then show ?thesis by (metis append_Nil)
    next
      assume "\<exists>p q. cs = p @ t @ q"
      then show ?thesis by (metis append_Cons)
    qed
  qed
  ultimately show ?case using Cons.IH by simp
qed

lemma trim_id:
  assumes "s \<noteq> []" and "\<not> isWhiteSpace (hd s)" and "\<not> isWhiteSpace (last s)"
  shows "trim s = s"
proof -
  have front: "dropWhile isWhiteSpace s = s"
    using assms(1,2) by (cases s) simp_all
  have rear: "dropWhile isWhiteSpace (rev s) = rev s"
    using assms(1,3) by (cases s rule: rev_cases) simp_all
  show ?thesis
    by (simp add: trim_def trimStart_def trimEnd_def front rear)
qed

lemma trimStart_head:
  assumes "trimStart (a # as) = a # as"
  shows "\<not> isWhiteSpace a"
proof
  assume "isWhiteSpace a"
  with assms have "dropWhile isWhiteSpace as = a # as"
    by (simp add: trimStart_def)
  then have "length (dropWhile isWhiteSpace as) = Suc (length as)"
    by simp
  with length_dropWhile_le[of isWhiteSpace as] show False
    by simp
qed

lemma map_option_push_False: "map_option (push False a) m = m"
  by (cases m) simp_all

lemma foldr_push_False: "foldr (push False) xs caps = caps"
  by (induction xs) simp_all

lemma foldr_push_True: "foldr (push True) xs (cap # caps) = (xs @ cap) # caps"
  by (induction xs) simp_all

lemma exec_lits_False: "exec False (lits p @ r) (p @ s) = exec False r s"
  by (induction p) (simp_all add: lits_def map_option_push_False)

text \<open>
  A lazy star steps over a run of characters of its class when the rest of the pattern
  fails at every position of the run.
\<close>

lemma exec_LazyStar_skip:
  assumes "\<forall>x\<in>set xs. cls_match c x"
    and "\<And>ys zs. xs = ys @ zs \<Longrightarrow> zs \<noteq> [] \<Longrightarrow> exec g r (zs @ s) = None"
  shows "exec g (LazyStar c # r) (xs @ s) =
         map_option (\<lambda>caps. foldr (push g) xs caps) (exec g (LazyStar c # r) s)"
  using assms
proof (induction xs)
  case Nil
  then show ?case by (simp add: option.map_ident)
next
  case (Cons x xs)
  have none: "exec g r (x # xs @ s) = None"
    using Cons.prems(2)[of "[]" "x # xs"] by simp
  have rest: "\<And>ys zs. xs = ys @ zs \<Longrightarrow> zs \<noteq> [] \<Longrightarrow> exec g r (zs @ s) = None"
    using Cons.prems(2) by (metis append_Cons)
  have ih: "exec g (LazyStar c # r) (xs @ s) =
            map_option (\<lambda>caps. foldr (push g) xs caps) (exec g (LazyStar c # r) s)"
    using Cons.IH Cons.prems(1) rest by simp
  show ?case
    using none Cons.prems(1) ih by (simp add: option.map_comp comp_def)
qed

lemma exec_Star_to_end:
  "\<forall>x\<in>set s. cls_match Dot x \<Longrightarrow>
   exec True [Star Dot, GroupClose, Opt (Lit CHR ''.''), EndOfInput] s = Some [s]"
  by (induction s) simp_all

text \<open>What a successful run of the matcher has consumed.\<close>

lemma exec_One_Some:
  "exec g (One c # r) s = Some m \<Longrightarrow>
   \<exists>x xs m'. s = x # xs \<and> cls_match c x \<and> exec g r xs = Some m' \<and> m = push g x m'"
  by (cases s) (auto split: if_splits)

lemma exec_Opt_Some:
  "exec g (Opt c # r) s = Some m \<Longrightarrow>
   exec g r s = Some m \<or>
   (\<exists>x xs m'. s = x # xs \<and> cls_match c x \<and> exec g r xs = Some m' \<and> m = push g x m')"
  by (cases s) (auto split: if_splits option.splits)

lemma exec_Star_Some:
  "exec g (Star c # r) s = Some m \<Longrightarrow>
   \<exists>xs s' m'. s = xs @ s' \<and> list_all (cls_match c) xs \<and> exec g r s' = Some m' \<and>
     m = foldr (push g) xs m'"
proof (induction s arbitrary: m)
  case Nil
  then show ?case by (intro exI[of _ "[]"] exI[of _ "[]"] exI[of _ m]) simp
next
  case (Cons x s)
  show ?case
  proof (cases "cls_match c x \<and> exec g (Star c # r) s \<noteq> None")
    case True
    then obtain m1 where m1: "exec g (Star c # r) s = Some m1" by auto
    with True Cons.prems have m: "m = push g x m1" by simp
    from Cons.IH[OF m1] obtain xs s' m' where
      "s = xs @ s'" "list_all (cls_match c) xs" "exec g r s' = Some m'" "m1 = foldr (push g) xs m'"
      by blast
    with True m show ?thesis
      by (intro exI[of _ "x # xs"] exI[of _ s'] exI[of _ m']) simp
  next
    case False
    with Cons.prems have "exec g r (x # s) = Some m"
      by (auto split: if_splits option.splits)
    then show ?thesis
      by (intro exI[of _ "[]"] exI[of _ "x # s"] exI[of _ m]) simp
  qed
qed

lemma exec_Ones_Some:
  "exec g (map One cs @ r) s = Some m \<Longrightarrow>
   \<exists>w s' m'. s = w @ s' \<and> list_all2 cls_match cs w \<and> exec g r s' = Some m' \<and>
     m = foldr (push g) w m'"
proof (induction cs arbitrary: s m)
  case Nil
  then show ?case by (intro exI[of _ "[]"] exI[of _ s] exI[of _ m]) simp
next
  case (Cons c cs)
  from Cons.prems obtain x xs m1 where
    s: "s = x # xs" and c: "cls_match c x" and m1: "exec g (map One cs @ r) xs = Some m1"
    and m: "m = push g x m1"
    using exec_One_Some[of g c "map One cs @ r" s m] by auto
  from Cons.IH[OF m1] obtain w s' m' where
    "xs = w @ s'" "list_all2 cls_match cs w" "exec g r s' = Some m'" "m1 = foldr (push g) w m'"
    by blast
  with s c m show ?case
    by (intro exI[of _ "x # w"] exI[of _ s'] exI[of _ m']) simp
qed

lemma str_match_Some:
  "str_match re s = Some m \<Longrightarrow> \<exists>pre s'. s = pre @ s' \<and> exec False re s' = Some m"
proof (induction s)
  case Nil
  then show ?case by simp
next
  case (Cons x s)
  show ?case
  proof (cases "exec False re (x # s)")
    case None
    with Cons.prems have "str_match re s = Some m" by simp
    from Cons.IH[OF this] obtain pre s' where "s = pre @ s'" "exec False re s' = Some m" by blast
    then show ?thesis by (intro exI[of _ "x # pre"] exI[of _ s']) simp
  next
    case (Some m')
    with Cons.prems have "exec False re (x # s) = Some m" by simp
    then show ?thesis by (intro exI[of _ "[]"] exI[of _ "x # s"]) simp
  qed
qed

section \<open>The welcome message\<close>

text \<open>
  On a text \<^verbatim>\<open>Logged in as U (Role) at L.\<close> the pattern captures the text in the
  parentheses and the text after \<^verbatim>\<open>at\<close>, when \<open>U\<close> has no opening and \<open>Role\<close> no
  closing parenthesis and no part has a line terminator.
\<close>

lemma welcomeRegex_match:
  assumes dots: "\<forall>c\<in>set (U @ Role @ L). c \<noteq> CHR 0x0A \<and> c \<noteq> CHR 0x0D"
    and U: "CHR ''('' \<notin> set U"
    and Role: "CHR '')'' \<notin> set Role"
  shows "str_match welcomeRegex (''Logged in as '' @ U @ '' ('' @ Role @ '') at '' @ L @ ''.'')
         = Some [Role, L @ ''.'']"
proof -
  let ?tail = "[GroupOpen, Star Dot, GroupClose, Opt (Lit CHR ''.''), EndOfInput]"
  let ?r2 = "GroupClose # lits '') at '' @ ?tail"
  let ?r1 = "One (Lit CHR ''('') # GroupOpen # LazyStar Dot # ?r2"
  let ?text = "''Logged in as '' @ U @ '' ('' @ Role @ '') at '' @ L @ ''.''"
  have g2: "exec True [Star Dot, GroupClose, Opt (Lit CHR ''.''), EndOfInput] (L @ ''.'')
            = Some [L @ ''.'']"
    using dots by (intro exec_Star_to_end) auto
  have close: "exec True ?r2 ('') at '' @ L @ ''.'') = Some [[], L @ ''.'']"
    using g2 exec_lits_False[of "'') at ''" ?tail "L @ ''.''"] by simp
  have role_skip:
    "exec True (LazyStar Dot # ?r2) (Role @ '') at '' @ L @ ''.'')
     = map_option (\<lambda>caps. foldr (push True) Role caps)
         (exec True (LazyStar Dot # ?r2) ('') at '' @ L @ ''.''))"
  proof (rule exec_LazyStar_skip)
    show "\<forall>x\<in>set Role. cls_match Dot x" using dots by auto
  next
    fix ys zs assume eq: "Role = ys @ zs" and ne: "zs \<noteq> []"
    from ne obtain z zs' where zs: "zs = z # zs'" by (cases zs) auto
    have "z \<in> set Role" using zs eq by simp
    then have "z \<noteq> CHR '')''" using Role by auto
    then show "exec True ?r2 (zs @ '') at '' @ L @ ''.'') = None"
      using zs by (simp add: lits_def)
  qed
  have g1: "exec True (LazyStar Dot # ?r2) (Role @ '') at '' @ L @ ''.'') = Some [Role, L @ ''.'']"
    unfolding role_skip using close by (simp add: foldr_push_True)
  have open1: "exec False ?r1 (''('' @ Role @ '') at '' @ L @ ''.'') = Some [Role, L @ ''.'']"
    using g1 by simp
  have u_skip:
    "exec False (LazyStar Dot # ?r1) ((U @ '' '') @ ''('' @ Role @ '') at '' @ L @ ''.'')
     = map_option (\<lambda>caps. foldr (push False) (U @ '' '') caps)
         (exec False (LazyStar Dot # ?r1) (''('' @ Role @ '') at '' @ L @ ''.''))"
  proof (rule exec_LazyStar_skip)
    show "\<forall>x\<in>set (U @ '' ''). cls_match Dot x" using dots by auto
  next
    fix ys zs assume eq: "U @ '' '' = ys @ zs" and ne: "zs \<noteq> []"
    from ne obtain z zs' where zs: "zs = z # zs'" by (cases zs) auto
    have "z \<in> set (ys @ zs)" using zs by simp
    then have "z \<in> set (U @ '' '')" using eq by simp
    then have "z \<noteq> CHR ''(''" using U by auto
    then show "exec False ?r1 (zs @ ''('' @ Role @ '') at '' @ L @ ''.'') = None"
      using zs by simp
  qed
  have "exec False welcomeRegex ?text
        = exec False (LazyStar Dot # ?r1) ((U @ '' '') @ ''('' @ Role @ '') at '' @ L @ ''.'')"
    unfolding welcomeRegex_def
    using exec_lits_False[of "''Logged in as ''" "LazyStar Dot # ?r1"
        "(U @ '' '') @ ''('' @ Role @ '') at '' @ L @ ''.''"]
    by simp
  also have "\<dots> = Some [Role, L @ ''.'']"
    unfolding u_skip using open1 by (simp add: foldr_push_False)
  finally show ?thesis by simp
qed

lemma ward_of_capture:
  assumes "trimStart L = L"
  shows "removeFinalDot (trim (L @ ''.'')) = L"
proof -
  have "trim (L @ ''.'') = L @ ''.''"
  proof (cases L)
    case Nil
    then show ?thesis by (simp add: trim_def trimStart_def trimEnd_def isWhiteSpace_def)
  next
    case (Cons a as)
    with assms have "\<not> isWhiteSpace a" by (simp add: trimStart_head)
    with Cons show ?thesis by (intro trim_id) (simp_all add: isWhiteSpace_def)
  qed
  then show ?thesis by (simp add: removeFinalDot_def)
qed

text \<open>
  C5, as the code has it. On the welcome text \<^verbatim>\<open>Logged in as U (Role) at L.\<close>
  \<^verbatim>\<open>getWelcomeMessageParts\<close> returns the text in the parentheses as \<open>userInfo\<close> and
  \<open>L\<close> as \<open>ward\<close> (for \<open>U\<close> without an opening parenthesis, \<open>Role\<close> without a closing
  one, \<open>L\<close> without white space in front and no line terminator in any of them). On a
  text the pattern does not match it returns \<^verbatim>\<open>null\<close>.
\<close>

theorem getWelcomeMessageParts_decomposition:
  "(loginUserInfo_waitFor pg = Inr () \<and>
    loginUserInfo_textContent pg =
      Inr (Some (''Logged in as '' @ U @ '' ('' @ Role @ '') at '' @ L @ ''.'')) \<and>
    (\<forall>c\<in>set (U @ Role @ L). c \<noteq> CHR 0x0A \<and> c \<noteq> CHR 0x0D) \<and>
    CHR ''('' \<notin> set U \<and> CHR '')'' \<notin> set Role \<and> trimStart L = L
    \<longrightarrow> getWelcomeMessageParts pg = Inr (Some \<lparr>userInfo = Role, ward = L\<rparr>)) \<and>
   (loginUserInfo_textContent pg' = Inr (Some text) \<and> str_match welcomeRegex (trim text) = None
    \<longrightarrow> getWelcomeMessageParts pg' = Inr None)"
proof (intro conjI impI)
  let ?text = "''Logged in as '' @ U @ '' ('' @ Role @ '') at '' @ L @ ''.''"
  assume h: "loginUserInfo_waitFor pg = Inr () \<and>
    loginUserInfo_textContent pg = Inr (Some ?text) \<and>
    (\<forall>c\<in>set (U @ Role @ L). c \<noteq> CHR 0x0A \<and> c \<noteq> CHR 0x0D) \<and>
    CHR ''('' \<notin> set U \<and> CHR '')'' \<notin> set Role \<and> trimStart L = L"
  have m: "str_match welcomeRegex ?text = Some [Role, L @ ''.'']"
    using h by (intro welcomeRegex_match) simp_all
  have t: "trim ?text = ?text"
    by (rule trim_id) (simp_all add: isWhiteSpace_def)
  have w: "removeFinalDot (trim (L @ ''.'')) = L"
    using h by (intro ward_of_capture) simp
  have ne: "?text \<noteq> []" by simp
  show "getWelcomeMessageParts pg = Inr (Some \<lparr>userInfo = Role, ward = L\<rparr>)"
    unfolding getWelcomeMessageParts_def
    using h m t w ne by (simp add: await_def try_catch_def)
next
  assume h: "loginUserInfo_textContent pg' = Inr (Some text) \<and>
    str_match welcomeRegex (trim text) = None"
  show "getWelcomeMessageParts pg' = Inr None"
    unfolding getWelcomeMessageParts_def
    using h by (cases "loginUserInfo_waitFor pg'") (simp_all add: await_def try_catch_def)
qed

theorem getWelcomeMessageParts_decomposition_witness:
  "getWelcomeMessageParts
     \<lparr>loginUserInfo_waitFor = Inr (),
      loginUserInfo_textContent = Inr (Some ''Logged in as Super User (admin) at Pharmacy.'')\<rparr>
   = Inr (Some \<lparr>userInfo = ''admin'', ward = ''Pharmacy''\<rparr>) \<and>
   str_match welcomeRegex (trim ''Welcome, admin'') = None \<and>
   getWelcomeMessageParts
     \<lparr>loginUserInfo_waitFor = Inr (), loginUserInfo_textContent = Inr (Some ''Welcome, admin'')\<rparr>
   = Inr None"
  using getWelcomeMessageParts_decomposition
    [of "\<lparr>loginUserInfo_waitFor = Inr (),
          loginUserInfo_textContent = Inr (Some ''Logged in as Super User (admin) at Pharmacy.'')\<rparr>"
        "''Super User''" "''admin''" "''Pharmacy''"
        "\<lparr>loginUserInfo_waitFor = Inr (), loginUserInfo_textContent = Inr (Some ''Welcome, admin'')\<rparr>"
        "''Welcome, admin''"]
  by (simp add: welcomeRegex_def lits_def trim_def trimStart_def trimEnd_def isWhiteSpace_def)

text \<open>
  C5, as the specification states it, fails: on the welcome text of the application,
  \<^verbatim>\<open>Logged in as Super User (admin) at Pharmacy.\<close>, \<open>userInfo\<close> is the text in the
  parentheses, \<^verbatim>\<open>admin\<close>, and not the text \<^verbatim>\<open>Super User\<close> before them.
\<close>

theorem getWelcomeMessageParts_userInfo_counterexample:
  "getWelcomeMessageParts
     \<lparr>loginUserInfo_waitFor = Inr (),
      loginUserInfo_textContent = Inr (Some ''Logged in as Super User (admin) at Pharmacy.'')\<rparr>
   = Inr (Some \<lparr>userInfo = ''admin'', ward = ''Pharmacy''\<rparr>) \<and>
   getWelcomeMessageParts
     \<lparr>loginUserInfo_waitFor = Inr (),
      loginUserInfo_textContent = Inr (Some ''Logged in as Super User (admin) at Pharmacy.'')\<rparr>
   \<noteq> Inr (Some \<lparr>userInfo = ''Super User'', ward = ''Pharmacy''\<rparr>)"
  by (simp add: getWelcomeMessageParts_def await_def try_catch_def welcomeRegex_def lits_def
      trim_def trimStart_def trimEnd_def isWhiteSpace_def removeFinalDot_def)

section \<open>Age, birthdate and patient id\<close>

lemma birthdateRegex_exec:
  assumes "exec False birthdateRegex s = Some m"
  shows "\<exists>sp1 d sp2 post. s = ''('' @ sp1 @ d @ sp2 @ '')'' @ post \<and>
           list_all isWhiteSpace sp1 \<and> list_all isWhiteSpace sp2 \<and> dateText d \<and> m = [d]"
proof -
  let ?tail = "[GroupClose, Star Space, One (Lit CHR '')'')]"
  let ?rest = "[Lit CHR ''.'', Word, Word, Word, Lit CHR ''.'', Digit, Digit, Digit, Digit]"
  have re: "birthdateRegex =
      One (Lit CHR ''('') # Star Space # GroupOpen # One Digit # Opt Digit # map One ?rest @ ?tail"
    by (simp add: birthdateRegex_def)
  from assms obtain s1 where s: "s = CHR ''('' # s1"
    and e1: "exec False (Star Space # GroupOpen # One Digit # Opt Digit # map One ?rest @ ?tail) s1 = Some m"
    unfolding re using exec_One_Some[of False "Lit CHR ''(''" _ s m] by auto
  from exec_Star_Some[OF e1] obtain sp1 s2 where s1: "s1 = sp1 @ s2"
    and sp1: "list_all isWhiteSpace sp1"
    and e2: "exec True (One Digit # Opt Digit # map One ?rest @ ?tail) s2 = Some m"
    by (auto simp: foldr_push_False list_all_iff)
  from exec_One_Some[OF e2] obtain d1 s3 m3 where s2: "s2 = d1 # s3" and d1: "isDigit d1"
    and e3: "exec True (Opt Digit # map One ?rest @ ?tail) s3 = Some m3" and m: "m = push True d1 m3"
    by auto
  have tail: "\<exists>sp2 post. t = sp2 @ '')'' @ post \<and> list_all isWhiteSpace sp2 \<and> mt = [[]]"
    if "exec True ?tail t = Some mt" for t mt
  proof -
    from that obtain m' where mt: "mt = [] # m'" and a: "exec False [Star Space, One (Lit CHR '')'')] t = Some m'"
      by auto
    from exec_Star_Some[OF a] obtain sp2 t' m'' where t: "t = sp2 @ t'" and sp2: "list_all isWhiteSpace sp2"
      and b: "exec False [One (Lit CHR '')'')] t' = Some m''" and m': "m' = m''"
      by (auto simp: foldr_push_False list_all_iff)
    from exec_One_Some[OF b] obtain post where "t' = CHR '')'' # post" "m'' = []"
      by auto
    with t sp2 mt m' show ?thesis by auto
  qed
  have date: "\<exists>w t mt. u = w @ t \<and> list_all2 cls_match ?rest w \<and> exec True ?tail t = Some mt \<and>
      mu = foldr (push True) w mt"
    if "exec True (map One ?rest @ ?tail) u = Some mu" for u mu
    using exec_Ones_Some[OF that] by blast
  from exec_Opt_Some[OF e3] show ?thesis
  proof
    assume "exec True (map One ?rest @ ?tail) s3 = Some m3"
    from date[OF this] obtain w t mt where s3: "s3 = w @ t" and w: "list_all2 cls_match ?rest w"
      and et: "exec True ?tail t = Some mt" and m3: "m3 = foldr (push True) w mt" by blast
    from tail[OF et] obtain sp2 post where t: "t = sp2 @ '')'' @ post" and sp2: "list_all isWhiteSpace sp2"
      and mt: "mt = [[]]" by blast
    have "dateText (d1 # w)" using d1 w by (simp add: dateText_def)
    moreover have "m = [d1 # w]" using m m3 mt by (simp add: foldr_push_True)
    moreover have "s = ''('' @ sp1 @ (d1 # w) @ sp2 @ '')'' @ post"
      using s s1 s2 s3 t by simp
    ultimately show ?thesis using sp1 sp2 by blast
  next
    assume "\<exists>x xs m'. s3 = x # xs \<and> cls_match Digit x \<and>
      exec True (map One ?rest @ ?tail) xs = Some m' \<and> m3 = push True x m'"
    then obtain d2 s4 m4 where s3: "s3 = d2 # s4" and d2: "isDigit d2"
      and e4: "exec True (map One ?rest @ ?tail) s4 = Some m4" and m3: "m3 = push True d2 m4"
      by auto
    from date[OF e4] obtain w t mt where s4: "s4 = w @ t" and w: "list_all2 cls_match ?rest w"
      and et: "exec True ?tail t = Some mt" and m4: "m4 = foldr (push True) w mt" by blast
    from tail[OF et] obtain sp2 post where t: "t = sp2 @ '')'' @ post" and sp2: "list_all isWhiteSpace sp2"
      and mt: "mt = [[]]" by blast
    have "dateText (d1 # d2 # w)" using d1 d2 w by (simp add: dateText_def)
    moreover have "m = [d1 # d2 # w]" using m m3 m4 mt by (simp add: foldr_push_True)
    moreover have "s = ''('' @ sp1 @ (d1 # d2 # w) @ sp2 @ '')'' @ post"
      using s s1 s2 s3 s4 t by simp
    ultimately show ?thesis using sp1 sp2 by blast
  qed
qed

lemma birthdateRegex_sound:
  assumes "str_match birthdateRegex s = Some m"
  shows "\<exists>pre sp1 d sp2 post. s = pre @ ''('' @ sp1 @ d @ sp2 @ '')'' @ post \<and>
           list_all isWhiteSpace sp1 \<and> list_all isWhiteSpace sp2 \<and> dateText d \<and> m = [d]"
proof -
  from str_match_Some[OF assms] obtain pre s' where s: "s = pre @ s'"
    and e: "exec False birthdateRegex s' = Some m" by blast
  from birthdateRegex_exec[OF e] s show ?thesis by blast
qed


lemma dateText_length: "dateText d \<Longrightarrow> 10 \<le> length d"
  by (auto simp: dateText_def dest: list_all2_lengthD)

lemma getPatientAge_returns: "\<exists>a. getPatientAge pg = Inr a"
  by (cases "ageElement_textContent pg")
     (auto simp: getPatientAge_def await_def try_catch_def split: option.splits)

lemma birthdateProbe_returns: "\<exists>v. birthdateProbe pg sel = Inr v"
  by (cases "first_textContent pg sel")
     (auto simp: birthdateProbe_def await_def try_catch_def split: option.splits)

lemma birthdateProbe_fails:
  "selectorProbeFails (first_textContent pg sel) \<Longrightarrow> birthdateProbe pg sel = Inr None"
  by (cases "first_textContent pg sel")
     (auto simp: selectorProbeFails_def birthdateProbe_def await_def try_catch_def split: option.splits)

lemma birthdateFromSelectors_returns: "\<exists>s. birthdateFromSelectors pg sels = Inr s"
proof (induction sels)
  case Nil
  then show ?case by simp
next
  case (Cons sel sels)
  obtain v where "birthdateProbe pg sel = Inr v" using birthdateProbe_returns by blast
  with Cons show ?case by (cases v) simp_all
qed

lemma birthdateFromSelectors_fail:
  "\<forall>sel\<in>set sels. selectorProbeFails (first_textContent pg sel) \<Longrightarrow>
   birthdateFromSelectors pg sels = Inr []"
  by (induction sels) (simp_all add: birthdateProbe_fails)

lemma getPatientBirthdate_returns: "\<exists>s. getPatientBirthdate pg = Inr s"
  by (cases "getPatientAge pg")
     (auto simp: getPatientBirthdate_def await_def try_catch_def split: sum.splits)

lemma getPatientId_returns: "\<exists>s. getPatientId pg = Inr s"
  by (cases "patientIdSection_textContent pg")
     (auto simp: getPatientId_def await_def try_catch_def)

text \<open>
  C6, as the code has it. On the text \<^verbatim>\<open>49 year(s) ( 22.Mar.1976)\<close> of the age
  element, \<^verbatim>\<open>getPatientAge\<close> returns the whole text (it splits nothing off), and
  \<^verbatim>\<open>getPatientBirthdate\<close> returns exactly \<^verbatim>\<open>22.Mar.1976\<close>, the date the pattern
  captures. On a text with no parenthesised date the pattern yields no match.
\<close>

theorem age_birthdate_decomposition:
  "(ageElement_textContent pg = Inr (Some ''49 year(s) ( 22.Mar.1976)'') \<longrightarrow>
      getPatientAge pg = Inr ''49 year(s) ( 22.Mar.1976)'' \<and>
      getPatientBirthdate pg = Inr ''22.Mar.1976'') \<and>
   str_match birthdateRegex ''49 year(s) ( 22.Mar.1976)'' = Some [''22.Mar.1976''] \<and>
   (\<not> (\<exists>pre sp1 d sp2 post. s = pre @ ''('' @ sp1 @ d @ sp2 @ '')'' @ post \<and>
          list_all isWhiteSpace sp1 \<and> list_all isWhiteSpace sp2 \<and> dateText d)
    \<longrightarrow> str_match birthdateRegex s = None)"
proof (intro conjI impI)
  assume h: "ageElement_textContent pg = Inr (Some ''49 year(s) ( 22.Mar.1976)'')"
  have a: "getPatientAge pg = Inr ''49 year(s) ( 22.Mar.1976)''"
    using h by (simp add: getPatientAge_def await_def try_catch_def
        trim_def trimStart_def trimEnd_def isWhiteSpace_def)
  show "getPatientAge pg = Inr ''49 year(s) ( 22.Mar.1976)''" by (rule a)
  show "getPatientBirthdate pg = Inr ''22.Mar.1976''"
    unfolding getPatientBirthdate_def a
    by (simp add: await_def try_catch_def birthdateRegex_def isDigit_def isWordChar_def
        trim_def trimStart_def trimEnd_def isWhiteSpace_def)
next
  show "str_match birthdateRegex ''49 year(s) ( 22.Mar.1976)'' = Some [''22.Mar.1976'']"
    by (simp add: birthdateRegex_def isDigit_def isWordChar_def isWhiteSpace_def)
next
  assume no: "\<not> (\<exists>pre sp1 d sp2 post. s = pre @ ''('' @ sp1 @ d @ sp2 @ '')'' @ post \<and>
          list_all isWhiteSpace sp1 \<and> list_all isWhiteSpace sp2 \<and> dateText d)"
  show "str_match birthdateRegex s = None"
  proof (cases "str_match birthdateRegex s")
    case None
    then show ?thesis .
  next
    case (Some m)
    from birthdateRegex_sound[OF this] no show ?thesis by blast
  qed
qed

theorem age_birthdate_decomposition_witness:
  "getPatientAge
     \<lparr>ageElement_textContent = Inr (Some ''49 year(s) ( 22.Mar.1976)''),
      first_textContent = (\<lambda>sel. Inl TimeoutError),
      patientIdSection_textContent = Inl TimeoutError\<rparr> = Inr ''49 year(s) ( 22.Mar.1976)'' \<and>
   getPatientBirthdate
     \<lparr>ageElement_textContent = Inr (Some ''49 year(s) ( 22.Mar.1976)''),
      first_textContent = (\<lambda>sel. Inl TimeoutError),
      patientIdSection_textContent = Inl TimeoutError\<rparr> = Inr ''22.Mar.1976'' \<and>
   \<not> (\<exists>pre sp1 d sp2 post. ''63 year(s)'' = pre @ ''('' @ sp1 @ d @ sp2 @ '')'' @ post \<and>
          list_all isWhiteSpace sp1 \<and> list_all isWhiteSpace sp2 \<and> dateText d) \<and>
   str_match birthdateRegex ''63 year(s)'' = None"
proof -
  have no: "\<not> (\<exists>pre sp1 d sp2 post. ''63 year(s)'' = pre @ ''('' @ sp1 @ d @ sp2 @ '')'' @ post \<and>
          list_all isWhiteSpace sp1 \<and> list_all isWhiteSpace sp2 \<and> dateText d)"
  proof
    assume "\<exists>pre sp1 d sp2 post. ''63 year(s)'' = pre @ ''('' @ sp1 @ d @ sp2 @ '')'' @ post \<and>
          list_all isWhiteSpace sp1 \<and> list_all isWhiteSpace sp2 \<and> dateText d"
    then obtain pre sp1 d sp2 post where
      eq: "''63 year(s)'' = pre @ ''('' @ sp1 @ d @ sp2 @ '')'' @ post" and d: "dateText d"
      by blast
    from eq have "length ''63 year(s)'' = length (pre @ ''('' @ sp1 @ d @ sp2 @ '')'' @ post)"
      by (rule arg_cong)
    with dateText_length[OF d] show False by simp
  qed
  show ?thesis
    using no age_birthdate_decomposition
      [of "\<lparr>ageElement_textContent = Inr (Some ''49 year(s) ( 22.Mar.1976)''),
            first_textContent = (\<lambda>sel. Inl TimeoutError),
            patientIdSection_textContent = Inl TimeoutError\<rparr>" "''63 year(s)''"]
    by simp
qed

text \<open>
  C6, as the specification states it, fails: the age returned for the text
  \<^verbatim>\<open>49 year(s) ( 22.Mar.1976)\<close> is the whole text, not \<^verbatim>\<open>49 year(s)\<close>.
\<close>

theorem getPatientAge_whole_text_counterexample:
  "getPatientAge
     \<lparr>ageElement_textContent = Inr (Some ''49 year(s) ( 22.Mar.1976)''),
      first_textContent = (\<lambda>sel. Inl TimeoutError),
      patientIdSection_textContent = Inl TimeoutError\<rparr> = Inr ''49 year(s) ( 22.Mar.1976)'' \<and>
   getPatientAge
     \<lparr>ageElement_textContent = Inr (Some ''49 year(s) ( 22.Mar.1976)''),
      first_textContent = (\<lambda>sel. Inl TimeoutError),
      patientIdSection_textContent = Inl TimeoutError\<rparr> \<noteq> Inr ''49 year(s)''"
  by (simp add: getPatientAge_def await_def try_catch_def
      trim_def trimStart_def trimEnd_def isWhiteSpace_def)

text \<open>
  C7. When every probe of the birthdate fails (the age text is empty or the pattern does
  not match it, and each of the three selectors resolves to nothing, has no text or a
  text that is empty after trimming), \<^verbatim>\<open>getPatientBirthdate\<close> returns the empty string;
  when the probe of the patient id fails, \<^verbatim>\<open>getPatientId\<close> returns the empty string.
  Neither of them ever raises: on every page each returns a string.
\<close>

theorem extractors_empty_when_probes_fail:
  "((\<exists>ageText. getPatientAge pg = Inr ageText \<and>
       (ageText = [] \<or> str_match birthdateRegex ageText = None)) \<and>
    (\<forall>sel\<in>set birthdateSelectors. selectorProbeFails (first_textContent pg sel))
    \<longrightarrow> getPatientBirthdate pg = Inr []) \<and>
   (patternProbeFails patientIdRegex (patientIdSection_textContent pg)
    \<longrightarrow> getPatientId pg = Inr []) \<and>
   (\<exists>birthdate. getPatientBirthdate pg = Inr birthdate) \<and>
   (\<exists>patientId. getPatientId pg = Inr patientId)"
proof (intro conjI impI)
  assume h: "(\<exists>ageText. getPatientAge pg = Inr ageText \<and>
       (ageText = [] \<or> str_match birthdateRegex ageText = None)) \<and>
    (\<forall>sel\<in>set birthdateSelectors. selectorProbeFails (first_textContent pg sel))"
  then obtain ageText where a: "getPatientAge pg = Inr ageText"
    and m: "ageText = [] \<or> str_match birthdateRegex ageText = None" by blast
  have f: "birthdateFromSelectors pg birthdateSelectors = Inr []"
    using h by (intro birthdateFromSelectors_fail) simp
  show "getPatientBirthdate pg = Inr []"
    unfolding getPatientBirthdate_def a using m f by (auto simp: await_def try_catch_def)
next
  assume "patternProbeFails patientIdRegex (patientIdSection_textContent pg)"
  then show "getPatientId pg = Inr []"
    by (cases "patientIdSection_textContent pg")
       (auto simp: patternProbeFails_def getPatientId_def await_def try_catch_def split: option.splits)
next
  show "\<exists>birthdate. getPatientBirthdate pg = Inr birthdate" by (rule getPatientBirthdate_returns)
next
  show "\<exists>patientId. getPatientId pg = Inr patientId" by (rule getPatientId_returns)
qed

theorem extractors_empty_when_probes_fail_witness:
  "(let pg = \<lparr>ageElement_textContent = Inr (Some ''63 year(s)''),
              first_textContent =
                (\<lambda>sel. case sel of TextDate \<Rightarrow> Inl TimeoutError
                               | ClassBirthdate \<Rightarrow> Inr None
                               | TestIdBirthdate \<Rightarrow> Inr (Some ''   '')),
              patientIdSection_textContent = Inr (Some ''Identifier 100N07'')\<rparr>
    in getPatientAge pg = Inr ''63 year(s)'' \<and>
       str_match birthdateRegex ''63 year(s)'' = None \<and>
       selectorProbeFails (first_textContent pg TextDate) \<and>
       selectorProbeFails (first_textContent pg ClassBirthdate) \<and>
       selectorProbeFails (first_textContent pg TestIdBirthdate) \<and>
       patternProbeFails patientIdRegex (patientIdSection_textContent pg) \<and>
       getPatientBirthdate pg = Inr [] \<and> getPatientId pg = Inr [])"
  using extractors_empty_when_probes_fail
    [of "\<lparr>ageElement_textContent = Inr (Some ''63 year(s)''),
          first_textContent =
            (\<lambda>sel. case sel of TextDate \<Rightarrow> Inl TimeoutError
                           | ClassBirthdate \<Rightarrow> Inr None
                           | TestIdBirthdate \<Rightarrow> Inr (Some ''   '')),
          patientIdSection_textContent = Inr (Some ''Identifier 100N07'')\<rparr>"]
  by (simp add: Let_def getPatientAge_def await_def try_catch_def birthdateSelectors_def
      selectorProbeFails_def patternProbeFails_def birthdateRegex_def patientIdRegex_def lits_def
      trim_def trimStart_def trimEnd_def isWhiteSpace_def)

section \<open>The location control\<close>

lemma getLocationOptions_probe_failure:
  "locationDropdown_isSelect pg = Inl e \<Longrightarrow> getLocationOptions pg = getLocationOptionsFromButtons pg"
  by (simp add: getLocationOptions_def await_def try_catch_def)

lemma selectLocation_probe_failure:
  "locationDropdown_isSelect pg = Inl e \<Longrightarrow> selectLocation pg location = Inl e"
  by (simp add: selectLocation_def await_def)

text \<open>
  C8 holds for the enumeration of the options and fails for the selection: on a page
  where the probe of the shape is rejected, \<^verbatim>\<open>getLocationOptions\<close> falls back to the
  buttons, and \<^verbatim>\<open>selectLocation\<close> is rejected with the error of the probe, although
  the button of the location could be clicked.
\<close>

theorem selectLocation_probe_failure_propagates:
  "(let pg = \<lparr>locationDropdown_isSelect = Inl TimeoutError,
              locationOptions_waitFor = Inl TimeoutError,
              locationOptions_allTextContents = Inr [],
              locationButtons_waitFor = Inr (),
              locationButtons_allTextContents = Inr [''Inpatient Ward'', ''Pharmacy''],
              text_isVisible = (\<lambda>loc. Inr True),
              selectOption_label = (\<lambda>label. Inl TimeoutError),
              locationButton_waitFor = (\<lambda>loc. Inr ()),
              locationButton_click = (\<lambda>loc. Inr ()),
              random = 0\<rparr>
    in getLocationOptions pg = Inr [''Inpatient Ward'', ''Pharmacy''] \<and>
       selectLocationButton pg ''Pharmacy'' = Inr (ButtonClicked ''Pharmacy'') \<and>
       selectLocation pg ''Pharmacy'' = Inl TimeoutError)"
  by (simp add: Let_def getLocationOptions_def getLocationOptionsFromButtons_def selectLocation_def
      selectLocationButton_def await_def try_catch_def trim_def trimStart_def trimEnd_def isWhiteSpace_def)

lemma visibleLocations_filter:
  "\<forall>loc\<in>set locs. \<exists>v. text_isVisible pg loc = Inr v \<Longrightarrow>
   visibleLocations pg locs acc = Inr (acc @ filter (\<lambda>loc. text_isVisible pg loc = Inr True) locs)"
  by (induction locs arbitrary: acc) auto

text \<open>
  C9, as the code has it. When the wait for the first location button is rejected and
  the visibility of each common location can be read, \<^verbatim>\<open>getLocationOptionsFromButtons\<close>
  returns the common locations that are visible, or all six of them when none is: a list
  that is not empty. When the buttons are there, it returns their texts that are not blank,
  with no fallback. The list of the common locations is the one of the test fixtures.
\<close>

theorem getLocationOptionsFromButtons_fallback:
  "(locationButtons_waitFor pg = Inl e \<and>
    (\<forall>loc\<in>set commonLocations. \<exists>v. text_isVisible pg loc = Inr v)
    \<longrightarrow> (\<exists>options. getLocationOptionsFromButtons pg = Inr options \<and> options \<noteq> [] \<and>
          options =
            (if filter (\<lambda>loc. text_isVisible pg loc = Inr True) commonLocations \<noteq> []
             then filter (\<lambda>loc. text_isVisible pg loc = Inr True) commonLocations
             else commonLocations))) \<and>
   (locationButtons_waitFor pg' = Inr () \<and> locationButtons_allTextContents pg' = Inr buttons
    \<longrightarrow> getLocationOptionsFromButtons pg' = Inr (filter (\<lambda>option. trim option \<noteq> []) buttons)) \<and>
   commonLocations = VALID_LOCATIONS \<and>
   commonLocations =
     [''Inpatient Ward'', ''Outpatient Clinic'', ''Laboratory'', ''Pharmacy'',
      ''Registration Desk'', ''Isolation Ward'']"
proof (intro conjI impI)
  assume h: "locationButtons_waitFor pg = Inl e \<and>
    (\<forall>loc\<in>set commonLocations. \<exists>v. text_isVisible pg loc = Inr v)"
  let ?vis = "filter (\<lambda>loc. text_isVisible pg loc = Inr True) commonLocations"
  have v: "visibleLocations pg commonLocations [] = Inr ?vis"
    using h visibleLocations_filter[of commonLocations pg "[]"] by simp
  have r: "getLocationOptionsFromButtons pg = Inr (if ?vis \<noteq> [] then ?vis else commonLocations)"
    unfolding getLocationOptionsFromButtons_def using h v by (simp add: await_def try_catch_def)
  have ne: "commonLocations \<noteq> []" by (simp add: commonLocations_def)
  show "\<exists>options. getLocationOptionsFromButtons pg = Inr options \<and> options \<noteq> [] \<and>
          options = (if ?vis \<noteq> [] then ?vis else commonLocations)"
    using r ne by auto
next
  assume "locationButtons_waitFor pg' = Inr () \<and> locationButtons_allTextContents pg' = Inr buttons"
  then show "getLocationOptionsFromButtons pg' = Inr (filter (\<lambda>option. trim option \<noteq> []) buttons)"
    by (simp add: getLocationOptionsFromButtons_def await_def try_catch_def)
next
  show "commonLocations = VALID_LOCATIONS"
    by (simp add: commonLocations_def VALID_LOCATIONS_def)
next
  show "commonLocations =
     [''Inpatient Ward'', ''Outpatient Clinic'', ''Laboratory'', ''Pharmacy'',
      ''Registration Desk'', ''Isolation Ward'']"
    by (simp add: commonLocations_def)
qed

theorem getLocationOptionsFromButtons_fallback_witness:
  "getLocationOptionsFromButtons
     \<lparr>locationDropdown_isSelect = Inr False,
      locationOptions_waitFor = Inl TimeoutError,
      locationOptions_allTextContents = Inr [],
      locationButtons_waitFor = Inl TimeoutError,
      locationButtons_allTextContents = Inr [],
      text_isVisible = (\<lambda>loc. Inr (loc = ''Pharmacy'')),
      selectOption_label = (\<lambda>label. Inl TimeoutError),
      locationButton_waitFor = (\<lambda>loc. Inr ()),
      locationButton_click = (\<lambda>loc. Inr ()),
      random = 0\<rparr> = Inr [''Pharmacy''] \<and>
   getLocationOptionsFromButtons
     \<lparr>locationDropdown_isSelect = Inr False,
      locationOptions_waitFor = Inl TimeoutError,
      locationOptions_allTextContents = Inr [],
      locationButtons_waitFor = Inr (),
      locationButtons_allTextContents = Inr ['' Laboratory '', ''  ''],
      text_isVisible = (\<lambda>loc. Inr False),
      selectOption_label = (\<lambda>label. Inl TimeoutError),
      locationButton_waitFor = (\<lambda>loc. Inr ()),
      locationButton_click = (\<lambda>loc. Inr ()),
      random = 0\<rparr> = Inr ['' Laboratory '']"
  using getLocationOptionsFromButtons_fallback
    [of "\<lparr>locationDropdown_isSelect = Inr False,
      locationOptions_waitFor = Inl TimeoutError,
      locationOptions_allTextContents = Inr [],
      locationButtons_waitFor = Inl TimeoutError,
      locationButtons_allTextContents = Inr [],
      text_isVisible = (\<lambda>loc. Inr (loc = ''Pharmacy'')),
      selectOption_label = (\<lambda>label. Inl TimeoutError),
      locationButton_waitFor = (\<lambda>loc. Inr ()),
      locationButton_click = (\<lambda>loc. Inr ()),
      random = 0\<rparr>" TimeoutError
     "\<lparr>locationDropdown_isSelect = Inr False,
      locationOptions_waitFor = Inl TimeoutError,
      locationOptions_allTextContents = Inr [],
      locationButtons_waitFor = Inr (),
      locationButtons_allTextContents = Inr ['' Laboratory '', ''  ''],
      text_isVisible = (\<lambda>loc. Inr False),
      selectOption_label = (\<lambda>label. Inl TimeoutError),
      locationButton_waitFor = (\<lambda>loc. Inr ()),
      locationButton_click = (\<lambda>loc. Inr ()),
      random = 0\<rparr>" "['' Laboratory '', ''  '']"]
  by (simp add: commonLocations_def trim_def trimStart_def trimEnd_def isWhiteSpace_def)

text \<open>
  C9, as the specification states it, fails: when the buttons are there and their texts
  are blank, the enumeration yields no entry and the result is the empty list.
\<close>

theorem getLocationOptionsFromButtons_blank_counterexample:
  "getLocationOptionsFromButtons
     \<lparr>locationDropdown_isSelect = Inr False,
      locationOptions_waitFor = Inl TimeoutError,
      locationOptions_allTextContents = Inr [],
      locationButtons_waitFor = Inr (),
      locationButtons_allTextContents = Inr [''  '', []],
      text_isVisible = (\<lambda>loc. Inr True),
      selectOption_label = (\<lambda>label. Inl TimeoutError),
      locationButton_waitFor = (\<lambda>loc. Inr ()),
      locationButton_click = (\<lambda>loc. Inr ()),
      random = 0\<rparr> = Inr []"
  by (simp add: getLocationOptionsFromButtons_def await_def try_catch_def
      trim_def trimStart_def trimEnd_def isWhiteSpace_def)

section \<open>The search\<close>

lemma retryLoop_step:
  "retryLoop env q a ps tr =
    (if a < 5 then
       if fails env (length tr) then (Inl InteractionUnavailable, tr)
       else if extractRows q 0 (domAt env (length tr)) \<noteq> []
         then (Inr (extractRows q 0 (domAt env (length tr))),
               tr @ [ExtractPatients (length (extractRows q 0 (domAt env (length tr))))])
         else if fails env (Suc (length tr)) then (Inl InteractionUnavailable, tr @ [ExtractPatients 0])
         else retryLoop env q (a + 1) [] (tr @ [ExtractPatients 0, WaitForTimeout 2000])
     else (Inr ps, tr))"
  by (subst retryLoop.simps) (simp add: extractPatients_def perform_def Let_def)

text \<open>The trace of the loop: rounds that found nothing, then the end of the loop.\<close>

lemma retryLoop_trace:
  assumes "retryLoop env q a ps tr = (r, tr')" and "a \<le> 5"
  shows "\<exists>k ext. tr' = tr @ concat (replicate k [ExtractPatients 0, WaitForTimeout 2000]) @ ext \<and>
     k + a \<le> 5 \<and>
     ((k + a = 5 \<and> ext = [] \<and> r = Inr (if k = 0 then ps else [])) \<or>
      (k + a < 5 \<and> ext = [] \<and> r = Inl InteractionUnavailable \<and> fails env (length tr')) \<or>
      (k + a < 5 \<and> ext = [ExtractPatients 0] \<and> r = Inl InteractionUnavailable \<and>
         fails env (length tr')) \<or>
      (k + a < 5 \<and> (\<exists>found. found \<noteq> [] \<and> ext = [ExtractPatients (length found)] \<and>
         r = Inr found \<and> found = extractRows q 0 (domAt env (length tr' - 1)))))"
  using assms
proof (induction "5 - a" arbitrary: a ps tr)
  case 0
  then have a: "a = 5" by simp
  note eq = "0.prems"(1)[unfolded retryLoop_step[of env q a ps tr]]
  with a have "tr' = tr" "r = Inr ps"
    by auto
  with a show ?case
    by (intro exI[of _ 0] exI[of _ "[]"]) simp
next
  case (Suc n)
  then have a: "a < 5" by simp
  note eq = Suc.prems(1)[unfolded retryLoop_step[of env q a ps tr]]
  let ?found = "extractRows q 0 (domAt env (length tr))"
  consider (fail1) "fails env (length tr)"
    | (found) "\<not> fails env (length tr)" "?found \<noteq> []"
    | (fail2) "\<not> fails env (length tr)" "?found = []" "fails env (Suc (length tr))"
    | (again) "\<not> fails env (length tr)" "?found = []" "\<not> fails env (Suc (length tr))"
    by blast
  then show ?case
  proof cases
    case fail1
    with a eq have "tr' = tr" "r = Inl InteractionUnavailable"
      by auto
    with a fail1 show ?thesis
      by (intro exI[of _ 0] exI[of _ "[]"]) simp
  next
    case found
    with a eq have "tr' = tr @ [ExtractPatients (length ?found)]" "r = Inr ?found"
      by auto
    with a found show ?thesis
      by (intro exI[of _ 0] exI[of _ "[ExtractPatients (length ?found)]"]) simp
  next
    case fail2
    with a eq have "tr' = tr @ [ExtractPatients 0]" "r = Inl InteractionUnavailable"
      by auto
    with a fail2 show ?thesis
      by (intro exI[of _ 0] exI[of _ "[ExtractPatients 0]"]) simp
  next
    case again
    let ?tr = "tr @ [ExtractPatients 0, WaitForTimeout 2000]"
    from a again eq have rec: "retryLoop env q (a + 1) [] ?tr = (r, tr')"
      by simp
    have n: "n = 5 - (a + 1)" using Suc.hyps(2) by simp
    have le: "a + 1 \<le> 5" using a by simp
    from Suc.hyps(1)[OF n rec le] obtain k ext where
      all: "tr' = ?tr @ concat (replicate k [ExtractPatients 0, WaitForTimeout 2000]) @ ext \<and>
        k + (a + 1) \<le> 5 \<and>
        ((k + (a + 1) = 5 \<and> ext = [] \<and> r = Inr (if k = 0 then [] else [])) \<or>
         (k + (a + 1) < 5 \<and> ext = [] \<and> r = Inl InteractionUnavailable \<and>
            fails env (length tr')) \<or>
         (k + (a + 1) < 5 \<and> ext = [ExtractPatients 0] \<and> r = Inl InteractionUnavailable \<and>
            fails env (length tr')) \<or>
         (k + (a + 1) < 5 \<and> (\<exists>found. found \<noteq> [] \<and> ext = [ExtractPatients (length found)] \<and>
            r = Inr found \<and> found = extractRows q 0 (domAt env (length tr' - 1)))))"
      by blast
    then have tr': "tr' = ?tr @ concat (replicate k [ExtractPatients 0, WaitForTimeout 2000]) @ ext"
      and k: "k + (a + 1) \<le> 5"
      and ends: "(k + (a + 1) = 5 \<and> ext = [] \<and> r = Inr (if k = 0 then [] else [])) \<or>
         (k + (a + 1) < 5 \<and> ext = [] \<and> r = Inl InteractionUnavailable \<and>
            fails env (length tr')) \<or>
         (k + (a + 1) < 5 \<and> ext = [ExtractPatients 0] \<and> r = Inl InteractionUnavailable \<and>
            fails env (length tr')) \<or>
         (k + (a + 1) < 5 \<and> (\<exists>found. found \<noteq> [] \<and> ext = [ExtractPatients (length found)] \<and>
            r = Inr found \<and> found = extractRows q 0 (domAt env (length tr' - 1))))"
      by blast+
    have "tr' = tr @ concat (replicate (Suc k) [ExtractPatients 0, WaitForTimeout 2000]) @ ext"
      using tr' by simp
    moreover have "Suc k + a \<le> 5" using k by simp
    moreover have "(Suc k + a = 5 \<and> ext = [] \<and> r = Inr (if Suc k = 0 then ps else [])) \<or>
        (Suc k + a < 5 \<and> ext = [] \<and> r = Inl InteractionUnavailable \<and> fails env (length tr')) \<or>
        (Suc k + a < 5 \<and> ext = [ExtractPatients 0] \<and> r = Inl InteractionUnavailable \<and>
           fails env (length tr')) \<or>
        (Suc k + a < 5 \<and> (\<exists>found. found \<noteq> [] \<and> ext = [ExtractPatients (length found)] \<and>
           r = Inr found \<and> found = extractRows q 0 (domAt env (length tr' - 1))))"
      using ends by simp
    ultimately show ?thesis by blast
  qed
qed


lemma waitForFunction_trace:
  "waitForFunction env p as n tr = (r, tr') \<Longrightarrow>
   \<exists>k. k \<le> n \<and>
     ((r = Inr TimedOut \<and> tr' = tr @ replicate k (Poll False)) \<or>
      (r = Inr Matched \<and> k < n \<and> tr' = tr @ replicate k (Poll False) @ [Poll True] \<and>
         p (take 1 as) (domAt env (length tr' - 1)) = Inr True))"
proof (induction n arbitrary: tr)
  case 0
  then show ?case by simp
next
  case (Suc n)
  consider (fail) "fails env (length tr)"
    | (threw) err where "\<not> fails env (length tr)" "p (take 1 as) (domAt env (length tr)) = Inl err"
    | (hit) "\<not> fails env (length tr)" "p (take 1 as) (domAt env (length tr)) = Inr True"
    | (miss) "\<not> fails env (length tr)" "p (take 1 as) (domAt env (length tr)) = Inr False"
    by (cases "p (take 1 as) (domAt env (length tr))") auto
  then show ?case
  proof cases
    case fail
    with Suc.prems show ?thesis by (intro exI[of _ 1]) auto
  next
    case threw
    with Suc.prems show ?thesis by (intro exI[of _ 1]) auto
  next
    case hit
    with Suc.prems show ?thesis by (intro exI[of _ 0]) auto
  next
    case miss
    with Suc.prems have "waitForFunction env p as n (tr @ [Poll False]) = (r, tr')" by simp
    from Suc.IH[OF this] obtain k where k: "k \<le> n"
      and ends: "(r = Inr TimedOut \<and> tr' = (tr @ [Poll False]) @ replicate k (Poll False)) \<or>
        (r = Inr Matched \<and> k < n \<and> tr' = (tr @ [Poll False]) @ replicate k (Poll False) @ [Poll True] \<and>
           p (take 1 as) (domAt env (length tr' - 1)) = Inr True)"
      by blast
    from k ends show ?thesis
      by (intro exI[of _ "Suc k"]) (auto simp: replicate_append_same)
  qed
qed

lemma small_numerals:
  "(2::nat) = Suc (Suc 0)" "(3::nat) = Suc (Suc (Suc 0))" "(4::nat) = Suc (Suc (Suc (Suc 0)))"
  by simp_all



lemmas io_defs = searchPatient_def await_io_def perform_def allTextContents_def return_io_def
  searchPrefix_def Let_def

lemma searchPatient_early:
  assumes "fails env 0 \<or> fails env 1 \<or> fails env 2 \<or> fails env 3 \<or> fails env 4"
  shows "\<exists>k<5. searchPatient env q [] =
           (Inl InteractionUnavailable, take k (searchPrefix (map row_text (domAt env 2)) q)) \<and>
           fails env k"
proof -
  consider (a) "fails env 0"
    | (b) "\<not> fails env 0" "fails env 1"
    | (c) "\<not> fails env 0" "\<not> fails env 1" "fails env 2"
    | (d) "\<not> fails env 0" "\<not> fails env 1" "\<not> fails env 2" "fails env 3"
    | (e) "\<not> fails env 0" "\<not> fails env 1" "\<not> fails env 2" "\<not> fails env 3" "fails env 4"
    using assms by blast
  then show ?thesis
  proof cases
    case a
    then show ?thesis by (intro exI[of _ 0]) (simp add: io_defs)
  next
    case b
    then show ?thesis by (intro exI[of _ 1]) (simp add: io_defs)
  next
    case c
    then show ?thesis by (intro exI[of _ 2]) (simp add: io_defs small_numerals)
  next
    case d
    then show ?thesis by (intro exI[of _ 3]) (simp add: io_defs small_numerals)
  next
    case e
    then show ?thesis by (intro exI[of _ 4]) (simp add: io_defs small_numerals)
  qed
qed

lemma searchPatient_late:
  assumes "\<not> (fails env 0 \<or> fails env 1 \<or> fails env 2 \<or> fails env 3 \<or> fails env 4)"
  shows "searchPatient env q [] =
     await_io (waitForFunction env newMatchingRow
              [Str ''table tbody tr:not(.dataTables_empty)'',
               StrArray (map row_text (domAt env 2)), Str q, Options 10000]
              (polls env)) (\<lambda>_.
     await_io (retryLoop env q 0 []) (\<lambda>found.
     return_io
       \<lparr>success = True,
        hasResults = (length found > 0),
        resultCount = length found,
        patients = found,
        message =
          (if length found > 0
           then ''Found '' @ numberToString (length found) @ '' patients matching '' @
                [CHR 0x22] @ q @ [CHR 0x22]
           else ''No patients found matching '' @ [CHR 0x22] @ q @ [CHR 0x22])\<rparr>))
       (searchPrefix (map row_text (domAt env 2)) q)"
  using assms by (simp add: searchPatient_def await_io_def[of "perform env ev" for ev]
      await_io_def[of "allTextContents env"] perform_def allTextContents_def
      searchPrefix_def Let_def small_numerals)


lemma searchPatient_run:
  assumes run: "searchPatient env q [] = (r, tr)"
  shows "(\<exists>k<5. r = Inl InteractionUnavailable \<and> fails env k \<and>
            tr = take k (searchPrefix (map row_text (domAt env 2)) q)) \<or>
         (\<exists>w ps rl.
            waitForFunction env newMatchingRow
              [Str ''table tbody tr:not(.dataTables_empty)'',
               StrArray (map row_text (domAt env 2)), Str q, Options 10000]
              (polls env)
              (searchPrefix (map row_text (domAt env 2)) q)
              = (Inr w, searchPrefix (map row_text (domAt env 2)) q @ ps) \<and>
            retryLoop env q 0 [] (searchPrefix (map row_text (domAt env 2)) q @ ps) = (rl, tr) \<and>
            (case rl of
               Inl e \<Rightarrow> r = Inl e
             | Inr found \<Rightarrow>
                 r = Inr \<lparr>success = True,
                          hasResults = (length found > 0),
                          resultCount = length found,
                          patients = found,
                          message =
                            (if length found > 0
                             then ''Found '' @ numberToString (length found) @
                                  '' patients matching '' @ [CHR 0x22] @ q @ [CHR 0x22]
                             else ''No patients found matching '' @ [CHR 0x22] @ q @
                                  [CHR 0x22])\<rparr>))"
proof (cases "fails env 0 \<or> fails env 1 \<or> fails env 2 \<or> fails env 3 \<or> fails env 4")
  case True
  from searchPatient_early[OF True, of q] run show ?thesis by auto
next
  case False
  let ?pre = "searchPrefix (map row_text (domAt env 2)) q"
  note eq = run[unfolded searchPatient_late[OF False]]
  obtain rw t6 where
    w: "waitForFunction env newMatchingRow
              [Str ''table tbody tr:not(.dataTables_empty)'',
               StrArray (map row_text (domAt env 2)), Str q, Options 10000]
              (polls env) ?pre = (rw, t6)"
    by (cases "waitForFunction env newMatchingRow
              [Str ''table tbody tr:not(.dataTables_empty)'',
               StrArray (map row_text (domAt env 2)), Str q, Options 10000]
              (polls env) ?pre")
  from waitForFunction_trace[OF w] obtain wv ps where rw: "rw = Inr wv" and t6: "t6 = ?pre @ ps"
    by auto
  obtain rl t7 where l: "retryLoop env q 0 [] t6 = (rl, t7)"
    by (cases "retryLoop env q 0 [] t6")
  from eq w rw l have "tr = t7 \<and> (case rl of
               Inl e \<Rightarrow> r = Inl e
             | Inr found \<Rightarrow>
                 r = Inr \<lparr>success = True,
                          hasResults = (length found > 0),
                          resultCount = length found,
                          patients = found,
                          message =
                            (if length found > 0
                             then ''Found '' @ numberToString (length found) @
                                  '' patients matching '' @ [CHR 0x22] @ q @ [CHR 0x22]
                             else ''No patients found matching '' @ [CHR 0x22] @ q @
                                  [CHR 0x22])\<rparr>)"
    by (cases rl) (auto simp: await_io_def return_io_def)
  with w rw t6 l show ?thesis by blast
qed


lemma searchPatient_shape:
  assumes run: "searchPatient env q [] = (r, tr)"
  shows "(\<exists>k<5. r = Inl InteractionUnavailable \<and> fails env k \<and>
            tr = take k (searchPrefix (map row_text (domAt env 2)) q)) \<or>
         (\<exists>ps k ext.
            tr = searchPrefix (map row_text (domAt env 2)) q @ ps @
                 concat (replicate k [ExtractPatients 0, WaitForTimeout 2000]) @ ext \<and>
            list_all isPoll ps \<and> k \<le> 5 \<and>
            ((k < 5 \<and> (ext = [] \<or> ext = [ExtractPatients 0]) \<and>
              r = Inl InteractionUnavailable \<and> fails env (length tr)) \<or>
             (\<exists>found.
                r = Inr \<lparr>success = True,
                         hasResults = (length found > 0),
                         resultCount = length found,
                         patients = found,
                         message =
                           (if length found > 0
                            then ''Found '' @ numberToString (length found) @
                                 '' patients matching '' @ [CHR 0x22] @ q @ [CHR 0x22]
                            else ''No patients found matching '' @ [CHR 0x22] @ q @
                                 [CHR 0x22])\<rparr> \<and>
                ((k = 5 \<and> ext = [] \<and> found = []) \<or>
                 (k < 5 \<and> found \<noteq> [] \<and> ext = [ExtractPatients (length found)] \<and>
                  found = extractRows q 0 (domAt env (length tr - 1)))))))"
proof -
  let ?pre = "searchPrefix (map row_text (domAt env 2)) q"
  from searchPatient_run[OF run] show ?thesis
  proof
    assume "\<exists>k<5. r = Inl InteractionUnavailable \<and> fails env k \<and> tr = take k ?pre"
    then show ?thesis by blast
  next
    assume "\<exists>w ps rl.
            waitForFunction env newMatchingRow
              [Str ''table tbody tr:not(.dataTables_empty)'',
               StrArray (map row_text (domAt env 2)), Str q, Options 10000]
              (polls env) ?pre
              = (Inr w, ?pre @ ps) \<and>
            retryLoop env q 0 [] (?pre @ ps) = (rl, tr) \<and>
            (case rl of
               Inl e \<Rightarrow> r = Inl e
             | Inr found \<Rightarrow>
                 r = Inr \<lparr>success = True,
                          hasResults = (length found > 0),
                          resultCount = length found,
                          patients = found,
                          message =
                            (if length found > 0
                             then ''Found '' @ numberToString (length found) @
                                  '' patients matching '' @ [CHR 0x22] @ q @ [CHR 0x22]
                             else ''No patients found matching '' @ [CHR 0x22] @ q @
                                  [CHR 0x22])\<rparr>)"
    then obtain w ps rl where
      w: "waitForFunction env newMatchingRow
              [Str ''table tbody tr:not(.dataTables_empty)'',
               StrArray (map row_text (domAt env 2)), Str q, Options 10000]
              (polls env) ?pre
            = (Inr w, ?pre @ ps)"
      and l: "retryLoop env q 0 [] (?pre @ ps) = (rl, tr)"
      and res: "case rl of
               Inl e \<Rightarrow> r = Inl e
             | Inr found \<Rightarrow>
                 r = Inr \<lparr>success = True,
                          hasResults = (length found > 0),
                          resultCount = length found,
                          patients = found,
                          message =
                            (if length found > 0
                             then ''Found '' @ numberToString (length found) @
                                  '' patients matching '' @ [CHR 0x22] @ q @ [CHR 0x22]
                             else ''No patients found matching '' @ [CHR 0x22] @ q @
                                  [CHR 0x22])\<rparr>"
      by blast
    from waitForFunction_trace[OF w] have ps: "list_all isPoll ps"
      by (auto simp: list_all_iff)
    have le: "(0::nat) \<le> 5" by simp
    from retryLoop_trace[OF l le] obtain k ext where
      all: "tr = (?pre @ ps) @ concat (replicate k [ExtractPatients 0, WaitForTimeout 2000]) @ ext \<and>
        k + 0 \<le> 5 \<and>
        ((k + 0 = 5 \<and> ext = [] \<and> rl = Inr (if k = 0 then [] else [])) \<or>
         (k + 0 < 5 \<and> ext = [] \<and> rl = Inl InteractionUnavailable \<and> fails env (length tr)) \<or>
         (k + 0 < 5 \<and> ext = [ExtractPatients 0] \<and> rl = Inl InteractionUnavailable \<and>
            fails env (length tr)) \<or>
         (k + 0 < 5 \<and> (\<exists>found. found \<noteq> [] \<and> ext = [ExtractPatients (length found)] \<and>
            rl = Inr found \<and> found = extractRows q 0 (domAt env (length tr - 1)))))"
      by blast
    then have tr: "tr = (?pre @ ps) @ concat (replicate k [ExtractPatients 0, WaitForTimeout 2000]) @ ext"
      and k: "k + 0 \<le> 5"
      and ends: "(k + 0 = 5 \<and> ext = [] \<and> rl = Inr (if k = 0 then [] else [])) \<or>
         (k + 0 < 5 \<and> ext = [] \<and> rl = Inl InteractionUnavailable \<and> fails env (length tr)) \<or>
         (k + 0 < 5 \<and> ext = [ExtractPatients 0] \<and> rl = Inl InteractionUnavailable \<and>
            fails env (length tr)) \<or>
         (k + 0 < 5 \<and> (\<exists>found. found \<noteq> [] \<and> ext = [ExtractPatients (length found)] \<and>
            rl = Inr found \<and> found = extractRows q 0 (domAt env (length tr - 1))))"
      by blast+
    let ?res = "\<lambda>found. \<lparr>success = True,
                         hasResults = (length found > 0),
                         resultCount = length found,
                         patients = found,
                         message =
                           (if length found > 0
                            then ''Found '' @ numberToString (length found) @
                                 '' patients matching '' @ [CHR 0x22] @ q @ [CHR 0x22]
                            else ''No patients found matching '' @ [CHR 0x22] @ q @
                                 [CHR 0x22])\<rparr>"
    have k5: "k \<le> 5" using k by simp
    have tr2: "tr = ?pre @ ps @ concat (replicate k [ExtractPatients 0, WaitForTimeout 2000]) @ ext"
      using tr by simp
    from ends have "(k < 5 \<and> (ext = [] \<or> ext = [ExtractPatients 0]) \<and>
              r = Inl InteractionUnavailable \<and> fails env (length tr)) \<or>
             (\<exists>found. r = Inr (?res found) \<and>
                ((k = 5 \<and> ext = [] \<and> found = []) \<or>
                 (k < 5 \<and> found \<noteq> [] \<and> ext = [ExtractPatients (length found)] \<and>
                  found = extractRows q 0 (domAt env (length tr - 1)))))"
    proof (elim disjE)
      assume a: "k + 0 = 5 \<and> ext = [] \<and> rl = Inr (if k = 0 then [] else [])"
      then have "rl = Inr []" by simp
      with res have "r = Inr (?res [])" by simp
      with a show ?thesis by (intro disjI2 exI[of _ "[]"]) simp
    next
      assume a: "k + 0 < 5 \<and> ext = [] \<and> rl = Inl InteractionUnavailable \<and> fails env (length tr)"
      with res have "r = Inl InteractionUnavailable" by simp
      with a show ?thesis by (intro disjI1) simp
    next
      assume a: "k + 0 < 5 \<and> ext = [ExtractPatients 0] \<and> rl = Inl InteractionUnavailable \<and>
            fails env (length tr)"
      with res have "r = Inl InteractionUnavailable" by simp
      with a show ?thesis by (intro disjI1) simp
    next
      assume "k + 0 < 5 \<and> (\<exists>found. found \<noteq> [] \<and> ext = [ExtractPatients (length found)] \<and>
            rl = Inr found \<and> found = extractRows q 0 (domAt env (length tr - 1)))"
      then obtain found where k: "k < 5" and f: "found \<noteq> []"
        and e: "ext = [ExtractPatients (length found)]" and rl: "rl = Inr found"
        and d: "found = extractRows q 0 (domAt env (length tr - 1))"
        by auto
      from rl res have "r = Inr (?res found)" by simp
      with k f e d show ?thesis by (intro disjI2 exI[of _ found]) blast
    qed
    with tr2 ps k5 show ?thesis by blast
  qed
qed

lemma filter_isExtract_rounds:
  "filter isExtract (concat (replicate k [ExtractPatients 0, WaitForTimeout 2000]))
   = replicate k (ExtractPatients 0)"
  by (induction k) simp_all

lemma set_rounds:
  "set (concat (replicate k [ExtractPatients 0, WaitForTimeout 2000]))
   \<subseteq> {ExtractPatients 0, WaitForTimeout 2000}"
  by (induction k) auto

lemma filter_isExtract_polls: "list_all isPoll ps \<Longrightarrow> filter isExtract ps = []"
proof (induction ps)
  case Nil
  then show ?case by simp
next
  case (Cons ev ps)
  then show ?case by (cases ev) simp_all
qed

lemma filter_take_none:
  assumes "\<forall>x\<in>set xs. \<not> P x"
  shows "filter P (take k xs) = []"
proof -
  have "\<forall>x\<in>set (take k xs). \<not> P x"
    using assms set_take_subset[of k xs] by blast
  then show ?thesis by (simp add: filter_empty_conv)
qed

lemma last_event_unique:
  assumes "xs @ [x] = before @ y # after" and "y \<notin> set xs"
  shows "after = [] \<and> y = x"
proof (cases after rule: rev_cases)
  case Nil
  with assms(1) show ?thesis by simp
next
  case (snoc as a)
  with assms(1) have "xs @ [x] = (before @ y # as) @ [a]" by simp
  then have "xs = before @ y # as" by (simp only: append1_eq_conv)
  with assms(2) show ?thesis by simp
qed

lemma extractRows_sound:
  "p \<in> set (extractRows q i rows) \<Longrightarrow>
   i \<le> index p \<and> index p - i < length rows \<and>
   2 \<le> length (row_cells (rows ! (index p - i))) \<and>
   name p = trim (row_cells (rows ! (index p - i)) ! 1) \<and>
   name p \<noteq> [] \<and> containsIgnoreCase (name p) q"
proof (induction rows arbitrary: i)
  case Nil
  then show ?case by simp
next
  case (Cons r rows)
  show ?case
  proof (cases "p \<in> set (extractRows q (i + 1) rows)")
    case True
    from Cons.IH[OF True] have ih: "i + 1 \<le> index p" "index p - (i + 1) < length rows"
      "2 \<le> length (row_cells (rows ! (index p - (i + 1))))"
      "name p = trim (row_cells (rows ! (index p - (i + 1))) ! 1)"
      "name p \<noteq> []" "containsIgnoreCase (name p) q"
      by blast+
    from ih(1) have "index p - i = Suc (index p - (i + 1))" by simp
    then have nth: "(r # rows) ! (index p - i) = rows ! (index p - (i + 1))"
      by (simp only: nth_Cons_Suc)
    from ih show ?thesis unfolding nth by auto
  next
    case False
    with Cons.prems have here: "index p = i" "2 \<le> length (row_cells r)"
      "name p = trim (row_cells r ! 1)" "name p \<noteq> []"
      "str_includes (toLowerCase (name p)) (toLowerCase q)"
      by (auto simp: Let_def split: if_splits)
    then show ?thesis by (simp add: containsIgnoreCase_def)
  qed
qed


lemma searchPatient_cases:
  assumes run: "searchPatient env query [] = (r, tr)"
  obtains
    (early) k where "k < 5" "r = Inl InteractionUnavailable" "fails env k"
      "tr = take k (searchPrefix (map row_text (domAt env 2)) query)"
  | (failed) ps k ext where
      "tr = searchPrefix (map row_text (domAt env 2)) query @ ps @
            concat (replicate k [ExtractPatients 0, WaitForTimeout 2000]) @ ext"
      "list_all isPoll ps" "k < 5" "ext = [] \<or> ext = [ExtractPatients 0]"
      "r = Inl InteractionUnavailable" "fails env (length tr)"
  | (exhausted) ps where
      "tr = searchPrefix (map row_text (domAt env 2)) query @ ps @
            concat (replicate 5 [ExtractPatients 0, WaitForTimeout 2000])"
      "list_all isPoll ps"
      "r = Inr \<lparr>success = True, hasResults = False, resultCount = 0, patients = [],
                message = ''No patients found matching '' @ [CHR 0x22] @ query @ [CHR 0x22]\<rparr>"
  | (found) ps k found where
      "tr = searchPrefix (map row_text (domAt env 2)) query @ ps @
            concat (replicate k [ExtractPatients 0, WaitForTimeout 2000]) @
            [ExtractPatients (length found)]"
      "list_all isPoll ps" "k < 5" "found \<noteq> []"
      "found = extractRows query 0 (domAt env (length tr - 1))"
      "r = Inr \<lparr>success = True, hasResults = True, resultCount = length found,
                patients = found,
                message = ''Found '' @ numberToString (length found) @
                  '' patients matching '' @ [CHR 0x22] @ query @ [CHR 0x22]\<rparr>"
proof -
  let ?pre = "searchPrefix (map row_text (domAt env 2)) query"
  let ?rounds = "\<lambda>k. concat (replicate k [ExtractPatients 0, WaitForTimeout 2000])"
  from searchPatient_shape[OF run] show thesis
  proof (elim disjE exE conjE)
    fix k assume "k < 5" "r = Inl InteractionUnavailable" "fails env k" "tr = take k ?pre"
    then show thesis by (rule early)
  next
    fix ps k ext
    assume "tr = ?pre @ ps @ ?rounds k @ ext" "list_all isPoll ps" "k < 5"
      "ext = []" "r = Inl InteractionUnavailable" "fails env (length tr)"
    then show thesis by (intro failed[of ps k ext]) simp_all
  next
    fix ps k ext
    assume "tr = ?pre @ ps @ ?rounds k @ ext" "list_all isPoll ps" "k < 5"
      "ext = [ExtractPatients 0]" "r = Inl InteractionUnavailable" "fails env (length tr)"
    then show thesis by (intro failed[of ps k ext]) simp_all
  next
    fix ps k ext found
    assume tr: "tr = ?pre @ ps @ ?rounds k @ ext" and ps: "list_all isPoll ps"
      and r: "r = Inr \<lparr>success = True,
                         hasResults = (length found > 0),
                         resultCount = length found,
                         patients = found,
                         message =
                           (if length found > 0
                            then ''Found '' @ numberToString (length found) @
                                 '' patients matching '' @ [CHR 0x22] @ query @ [CHR 0x22]
                            else ''No patients found matching '' @ [CHR 0x22] @ query @
                                 [CHR 0x22])\<rparr>"
      and k: "k = 5" and ext: "ext = []" and f: "found = []"
    show thesis
    proof (rule exhausted[of ps])
      show "tr = ?pre @ ps @ ?rounds 5" using tr k ext by simp
      show "list_all isPoll ps" by (rule ps)
      show "r = Inr \<lparr>success = True, hasResults = False, resultCount = 0, patients = [],
                message = ''No patients found matching '' @ [CHR 0x22] @ query @ [CHR 0x22]\<rparr>"
        using r f by simp
    qed
  next
    fix ps k ext found
    assume tr: "tr = ?pre @ ps @ ?rounds k @ ext" and ps: "list_all isPoll ps"
      and r: "r = Inr \<lparr>success = True,
                         hasResults = (length found > 0),
                         resultCount = length found,
                         patients = found,
                         message =
                           (if length found > 0
                            then ''Found '' @ numberToString (length found) @
                                 '' patients matching '' @ [CHR 0x22] @ query @ [CHR 0x22]
                            else ''No patients found matching '' @ [CHR 0x22] @ query @
                                 [CHR 0x22])\<rparr>"
      and k: "k < 5" and f: "found \<noteq> []" and ext: "ext = [ExtractPatients (length found)]"
      and d: "found = extractRows query 0 (domAt env (length tr - 1))"
    show thesis
    proof (rule found[of ps k found])
      show "tr = ?pre @ ps @ ?rounds k @ [ExtractPatients (length found)]" using tr ext by simp
      show "list_all isPoll ps" by (rule ps)
      show "k < 5" by (rule k)
      show "found \<noteq> []" by (rule f)
      show "found = extractRows query 0 (domAt env (length tr - 1))" by (rule d)
      show "r = Inr \<lparr>success = True, hasResults = True, resultCount = length found,
                patients = found,
                message = ''Found '' @ numberToString (length found) @
                  '' patients matching '' @ [CHR 0x22] @ query @ [CHR 0x22]\<rparr>"
        using r f by simp
    qed
  qed
qed


lemma list_all_afterTrigger_rounds:
  "list_all afterTrigger (concat (replicate k [ExtractPatients 0, WaitForTimeout 2000]))"
  using set_rounds[of k] by (auto simp: list_all_iff afterTrigger_def)

lemma list_all_afterTrigger_polls: "list_all isPoll ps \<Longrightarrow> list_all afterTrigger ps"
  by (simp add: list_all_iff afterTrigger_def)

lemma searchPrefix_no_extract: "\<forall>ev\<in>set (searchPrefix snap q). \<not> isExtract ev"
  by (simp add: searchPrefix_def)

lemma polls_no_extract: "list_all isPoll ps \<Longrightarrow> ExtractPatients n \<notin> set ps"
  by (auto simp: list_all_iff)

lemma rounds_no_positive_extract:
  "0 < n \<Longrightarrow> ExtractPatients n \<notin> set (concat (replicate k [ExtractPatients 0, WaitForTimeout 2000]))"
  using set_rounds[of k] by auto

text \<open>
  The convergence wait, as the code has it. The call of \<^verbatim>\<open>waitForFunction\<close> gives the
  page function one argument, the selector: its parameters \<^verbatim>\<open>previousTexts\<close> and
  \<^verbatim>\<open>query\<close> are undefined at every poll. On an empty table the page function returns
  false before it reads them; on any other table \<^verbatim>\<open>previousTexts.includes\<close> throws,
  and the branch of \<^verbatim>\<open>catch\<close> takes the rejection.
\<close>

lemma param_beyond: "length args \<le> i \<Longrightarrow> param args i = Undefined"
  by (simp add: param_def)

lemma isNewMatch_Undefined: "isNewMatch Undefined query t = Inl TypeError"
  by (simp add: isNewMatch_def)

lemma newMatchingRow_one_argument:
  assumes "length args \<le> 1"
  shows "newMatchingRow args rows = (if rows = [] then Inr False else Inl TypeError)"
proof -
  from assms have p1: "param args 1 = Undefined" by (rule param_beyond)
  show ?thesis
    by (cases rows) (simp_all add: newMatchingRow_def p1 isNewMatch_Undefined Let_def del: One_nat_def)
qed

lemma newMatchingRow_take_1:
  "newMatchingRow (take 1 as) rows = (if rows = [] then Inr False else Inl TypeError)"
  by (rule newMatchingRow_one_argument) simp

lemma waitForFunction_never_matches:
  "fst (waitForFunction env newMatchingRow as n tr) = Inr TimedOut"
  by (induction n arbitrary: tr) (simp_all add: newMatchingRow_take_1 del: One_nat_def)

lemma waitForFunction_polls_false:
  "\<exists>k\<le>n. snd (waitForFunction env newMatchingRow as n tr) = tr @ replicate k (Poll False)"
proof -
  obtain r tr' where w: "waitForFunction env newMatchingRow as n tr = (r, tr')"
    by (cases "waitForFunction env newMatchingRow as n tr")
  from waitForFunction_trace[OF w] obtain k where k: "k \<le> n"
    and ends: "(r = Inr TimedOut \<and> tr' = tr @ replicate k (Poll False)) \<or>
      (r = Inr Matched \<and> k < n \<and> tr' = tr @ replicate k (Poll False) @ [Poll True] \<and>
         newMatchingRow (take 1 as) (domAt env (length tr' - 1)) = Inr True)"
    by blast
  have "newMatchingRow (take 1 as) (domAt env (length tr' - 1)) \<noteq> Inr True"
    by (simp add: newMatchingRow_take_1 del: One_nat_def)
  with ends have "tr' = tr @ replicate k (Poll False)" by blast
  with k w show ?thesis by auto
qed

lemma searchPatient_never_matches:
  "Poll True \<notin> set (snd (searchPatient env q []))"
proof -
  let ?pre = "searchPrefix (map row_text (domAt env 2)) q"
  let ?as = "[Str ''table tbody tr:not(.dataTables_empty)'',
               StrArray (map row_text (domAt env 2)), Str q, Options 10000]"
  obtain r tr where run: "searchPatient env q [] = (r, tr)"
    by (cases "searchPatient env q []")
  have pre: "Poll True \<notin> set ?pre" by (simp add: searchPrefix_def)
  from searchPatient_run[OF run] have "Poll True \<notin> set tr"
  proof (elim disjE exE conjE)
    fix k assume "tr = take k ?pre"
    with pre show ?thesis using set_take_subset[of k ?pre] by blast
  next
    fix w ps rl
    assume w: "waitForFunction env newMatchingRow ?as (polls env) ?pre = (Inr w, ?pre @ ps)"
      and l: "retryLoop env q 0 [] (?pre @ ps) = (rl, tr)"
    from waitForFunction_polls_false[of "polls env" env ?as ?pre] w
    obtain k where "?pre @ ps = ?pre @ replicate k (Poll False)" by auto
    then have ps: "Poll True \<notin> set ps" by simp
    have le: "(0::nat) \<le> 5" by simp
    from retryLoop_trace[OF l le] obtain j ext where
      tr: "tr = (?pre @ ps) @ concat (replicate j [ExtractPatients 0, WaitForTimeout 2000]) @ ext"
      and ext: "ext = [] \<or> (\<exists>m. ext = [ExtractPatients m])"
      by blast
    from ext have e: "Poll True \<notin> set ext" by auto
    have "Poll True \<notin> set (concat (replicate j [ExtractPatients 0, WaitForTimeout 2000]))"
      using set_rounds[of j] by auto
    with pre ps e tr show ?thesis by simp
  qed
  with run show ?thesis by simp
qed

text \<open>
  C1. Convergence correctness. For every baseline \<open>B\<close>, every query and every sequence of
  live row sets, the convergence wait of \<^verbatim>\<open>searchPatient\<close> never reports a match, so it
  reports one only if a new matching row appeared; when no live row has a text absent from
  \<open>B\<close> that contains the query, case ignored, the wait ends in the timed-out branch; and
  no poll of a run of \<^verbatim>\<open>searchPatient\<close> holds. The code does no more than the claim
  asks: its wait ends in the timed-out branch whatever the rows are
  (\<open>waitForFunction_never_matches\<close>).
\<close>

theorem searchPatient_convergence_wait:
  "fst (waitForFunction env newMatchingRow [Str selector, StrArray B, Str query, Options 10000] n tr)
     \<noteq> Inr Matched \<and>
   (\<not> (\<exists>t. \<exists>r\<in>set (domAt env t). trim (row_text r) \<notin> set B \<and>
             containsIgnoreCase (trim (row_text r)) query) \<longrightarrow>
    fst (waitForFunction env newMatchingRow [Str selector, StrArray B, Str query, Options 10000] n tr)
      = Inr TimedOut) \<and>
   Poll True \<notin> set (snd (searchPatient env query []))"
  using waitForFunction_never_matches[of env "[Str selector, StrArray B, Str query, Options 10000]" n tr]
    searchPatient_never_matches[of env query]
  by simp

theorem searchPatient_convergence_wait_witness:
  "\<not> (\<exists>t. \<exists>r\<in>set (domAt \<lparr>domAt = (\<lambda>t. [\<lparr>row_text = ''100JJJ Jane Smith F'',
                                             row_cells = [''100JJJ'', ''Jane Smith'', ''F'']\<rparr>]),
                            fails = (\<lambda>t. False), polls = 3\<rparr> t).
          trim (row_text r) \<notin> set [''100JJJ Jane Smith F''] \<and>
          containsIgnoreCase (trim (row_text r)) ''john'') \<and>
   fst (waitForFunction
          \<lparr>domAt = (\<lambda>t. [\<lparr>row_text = ''100JJJ Jane Smith F'',
                           row_cells = [''100JJJ'', ''Jane Smith'', ''F'']\<rparr>]),
           fails = (\<lambda>t. False), polls = 3\<rparr>
          newMatchingRow
          [Str ''table tbody tr:not(.dataTables_empty)'', StrArray [''100JJJ Jane Smith F''],
           Str ''john'', Options 10000]
          3 [])
     = Inr TimedOut"
proof -
  let ?env = "\<lparr>domAt = (\<lambda>t. [\<lparr>row_text = ''100JJJ Jane Smith F'',
                                 row_cells = [''100JJJ'', ''Jane Smith'', ''F'']\<rparr>]),
                fails = (\<lambda>t. False), polls = 3\<rparr>"
  have t: "trim ''100JJJ Jane Smith F'' = ''100JJJ Jane Smith F''" by code_simp
  have h: "\<not> (\<exists>t. \<exists>r\<in>set (domAt ?env t).
          trim (row_text r) \<notin> set [''100JJJ Jane Smith F''] \<and>
          containsIgnoreCase (trim (row_text r)) ''john'')"
    by (simp add: t)
  from searchPatient_convergence_wait[of ?env "''table tbody tr:not(.dataTables_empty)''"
      "[''100JJJ Jane Smith F'']" "''john''" 3 "[]"] h
  show ?thesis by blast
qed

text \<open>
  C3. A run of \<^verbatim>\<open>searchPatient\<close> makes at most five extraction attempts and presses
  Enter at most once. An attempt that extracts a record set that is not empty is the last
  call of the run: no attempt follows it, and the search returns with \<open>success\<close> and
  \<open>hasResults\<close> true and that record set.
\<close>

theorem searchPatient_attempts:
  "length (filter isExtract (snd (searchPatient env query []))) \<le> 5 \<and>
   length (filter (\<lambda>ev. ev = Press ''Enter'') (snd (searchPatient env query []))) \<le> 1 \<and>
   (snd (searchPatient env query []) = before @ ExtractPatients n # after \<and> 0 < n \<longrightarrow>
      after = [] \<and>
      (\<exists>res. fst (searchPatient env query []) = Inr res \<and> success res \<and> hasResults res \<and>
         resultCount res = n \<and> length (patients res) = n))"
proof -
  obtain r tr where run: "searchPatient env query [] = (r, tr)"
    by (cases "searchPatient env query []")
  let ?pre = "searchPrefix (map row_text (domAt env 2)) query"
  let ?rounds = "\<lambda>k. concat (replicate k [ExtractPatients 0, WaitForTimeout 2000])"
  from searchPatient_shape[OF run]
  have "length (filter isExtract tr) \<le> 5 \<and>
   length (filter (\<lambda>ev. ev = Press ''Enter'') tr) \<le> 1 \<and>
   (tr = before @ ExtractPatients n # after \<and> 0 < n \<longrightarrow>
      after = [] \<and>
      (\<exists>res. r = Inr res \<and> success res \<and> hasResults res \<and>
         resultCount res = n \<and> length (patients res) = n))"
  proof
    assume "\<exists>k<5. r = Inl InteractionUnavailable \<and> fails env k \<and> tr = take k ?pre"
    then obtain k where k: "k < 5" and tr: "tr = take k ?pre" by blast
    have e: "filter isExtract tr = []"
      unfolding tr by (rule filter_take_none) (rule searchPrefix_no_extract)
    have "length (filter (\<lambda>ev. ev = Press ''Enter'') (take k ?pre))
          \<le> length (filter (\<lambda>ev. ev = Press ''Enter'') ?pre)"
      by (metis append_take_drop_id filter_append le_add1 length_append)
    then have p: "length (filter (\<lambda>ev. ev = Press ''Enter'') tr) \<le> 1"
      unfolding tr by (simp add: searchPrefix_def)
    have "ExtractPatients n \<notin> set tr"
      using e by (metis filter_empty_conv isExtract.simps(1))
    then have "tr \<noteq> before @ ExtractPatients n # after" by auto
    with e p show ?thesis by simp
  next
    assume "\<exists>ps k ext.
            tr = ?pre @ ps @ ?rounds k @ ext \<and>
            list_all isPoll ps \<and> k \<le> 5 \<and>
            ((k < 5 \<and> (ext = [] \<or> ext = [ExtractPatients 0]) \<and>
              r = Inl InteractionUnavailable \<and> fails env (length tr)) \<or>
             (\<exists>found.
                r = Inr \<lparr>success = True,
                         hasResults = (length found > 0),
                         resultCount = length found,
                         patients = found,
                         message =
                           (if length found > 0
                            then ''Found '' @ numberToString (length found) @
                                 '' patients matching '' @ [CHR 0x22] @ query @ [CHR 0x22]
                            else ''No patients found matching '' @ [CHR 0x22] @ query @
                                 [CHR 0x22])\<rparr> \<and>
                ((k = 5 \<and> ext = [] \<and> found = []) \<or>
                 (k < 5 \<and> found \<noteq> [] \<and> ext = [ExtractPatients (length found)] \<and>
                  found = extractRows query 0 (domAt env (length tr - 1))))))"
    then obtain ps k ext where tr: "tr = ?pre @ ps @ ?rounds k @ ext"
      and ps: "list_all isPoll ps" and k: "k \<le> 5"
      and ends: "(k < 5 \<and> (ext = [] \<or> ext = [ExtractPatients 0])) \<or>
             (\<exists>found. r = Inr \<lparr>success = True,
                         hasResults = (length found > 0),
                         resultCount = length found,
                         patients = found,
                         message =
                           (if length found > 0
                            then ''Found '' @ numberToString (length found) @
                                 '' patients matching '' @ [CHR 0x22] @ query @ [CHR 0x22]
                            else ''No patients found matching '' @ [CHR 0x22] @ query @
                                 [CHR 0x22])\<rparr> \<and>
                ((k = 5 \<and> ext = [] \<and> found = []) \<or>
                 (k < 5 \<and> found \<noteq> [] \<and> ext = [ExtractPatients (length found)])))"
      by blast
    have fe: "filter isExtract tr = replicate k (ExtractPatients 0) @ filter isExtract ext"
      unfolding tr
      by (simp add: filter_isExtract_rounds filter_isExtract_polls[OF ps] searchPrefix_def)
    have ext_len: "k + length (filter isExtract ext) \<le> 5"
      using ends k by auto
    have a: "length (filter isExtract tr) \<le> 5"
      unfolding fe using ext_len by simp
    have press_ps: "filter (\<lambda>ev. ev = Press ''Enter'') ps = []"
      using ps by (auto simp: filter_empty_conv list_all_iff)
    have press_rounds: "filter (\<lambda>ev. ev = Press ''Enter'') (?rounds k) = []"
      using set_rounds[of k] by (auto simp: filter_empty_conv)
    have press_ext: "filter (\<lambda>ev. ev = Press ''Enter'') ext = []"
      using ends by auto
    have b: "length (filter (\<lambda>ev. ev = Press ''Enter'') tr) \<le> 1"
      unfolding tr by (simp add: press_ps press_rounds press_ext searchPrefix_def)
    have c: "after = [] \<and>
      (\<exists>res. r = Inr res \<and> success res \<and> hasResults res \<and>
         resultCount res = n \<and> length (patients res) = n)"
      if dec: "tr = before @ ExtractPatients n # after" and n: "0 < n"
    proof -
      let ?body = "?pre @ ps @ ?rounds k"
      have notin: "ExtractPatients n \<notin> set ?body"
        using polls_no_extract[OF ps, of n] rounds_no_positive_extract[OF n, of k]
        by (simp add: searchPrefix_def)
      have mem: "ExtractPatients n \<in> set tr" using dec by simp
      from ends show ?thesis
      proof
        assume "k < 5 \<and> (ext = [] \<or> ext = [ExtractPatients 0])"
        with tr notin n have "ExtractPatients n \<notin> set tr" by auto
        with mem show ?thesis by simp
      next
        assume "\<exists>found. r = Inr \<lparr>success = True,
                         hasResults = (length found > 0),
                         resultCount = length found,
                         patients = found,
                         message =
                           (if length found > 0
                            then ''Found '' @ numberToString (length found) @
                                 '' patients matching '' @ [CHR 0x22] @ query @ [CHR 0x22]
                            else ''No patients found matching '' @ [CHR 0x22] @ query @
                                 [CHR 0x22])\<rparr> \<and>
                ((k = 5 \<and> ext = [] \<and> found = []) \<or>
                 (k < 5 \<and> found \<noteq> [] \<and> ext = [ExtractPatients (length found)]))"
        then obtain found where r: "r = Inr \<lparr>success = True,
                         hasResults = (length found > 0),
                         resultCount = length found,
                         patients = found,
                         message =
                           (if length found > 0
                            then ''Found '' @ numberToString (length found) @
                                 '' patients matching '' @ [CHR 0x22] @ query @ [CHR 0x22]
                            else ''No patients found matching '' @ [CHR 0x22] @ query @
                                 [CHR 0x22])\<rparr>"
          and f: "(k = 5 \<and> ext = [] \<and> found = []) \<or>
                 (k < 5 \<and> found \<noteq> [] \<and> ext = [ExtractPatients (length found)])"
          by blast
        from f show ?thesis
        proof
          assume "k = 5 \<and> ext = [] \<and> found = []"
          with tr notin have "ExtractPatients n \<notin> set tr" by simp
          with mem show ?thesis by simp
        next
          assume g: "k < 5 \<and> found \<noteq> [] \<and> ext = [ExtractPatients (length found)]"
          with tr dec have "?body @ [ExtractPatients (length found)] = before @ ExtractPatients n # after"
            by simp
          from last_event_unique[OF this notin] have "after = []" "n = length found"
            by simp_all
          with r g show ?thesis by simp
        qed
      qed
    qed
    from a b c show ?thesis by blast
  qed
  with run show ?thesis by simp
qed


theorem searchPatient_attempts_witness:
  "snd (searchPatient
          \<lparr>domAt = (\<lambda>t. if t < 11 then []
                        else [\<lparr>row_text = ''100N07John DoeM49'',
                               row_cells = [''100N07'', ''John Doe'', ''M'', ''49'']\<rparr>]),
           fails = (\<lambda>t. False), polls = 2\<rparr> ''john'' [])
   = [Fill [], WaitForTimeout 300, AllTextContents [], Fill ''john'', Press ''Enter'',
      Poll False, Poll False, ExtractPatients 0, WaitForTimeout 2000,
      ExtractPatients 0, WaitForTimeout 2000] @ ExtractPatients 1 # [] \<and>
   (\<exists>res. fst (searchPatient
          \<lparr>domAt = (\<lambda>t. if t < 11 then []
                        else [\<lparr>row_text = ''100N07John DoeM49'',
                               row_cells = [''100N07'', ''John Doe'', ''M'', ''49'']\<rparr>]),
           fails = (\<lambda>t. False), polls = 2\<rparr> ''john'' []) = Inr res \<and>
      success res \<and> hasResults res \<and> resultCount res = 1 \<and> length (patients res) = 1)"
proof -
  let ?env = "\<lparr>domAt = (\<lambda>t. if t < 11 then []
                        else [\<lparr>row_text = ''100N07John DoeM49'',
                               row_cells = [''100N07'', ''John Doe'', ''M'', ''49'']\<rparr>]),
           fails = (\<lambda>t. False), polls = 2\<rparr>"
  have tr: "snd (searchPatient ?env ''john'' [])
   = [Fill [], WaitForTimeout 300, AllTextContents [], Fill ''john'', Press ''Enter'',
      Poll False, Poll False, ExtractPatients 0, WaitForTimeout 2000,
      ExtractPatients 0, WaitForTimeout 2000] @ ExtractPatients 1 # []"
    by code_simp
  from searchPatient_attempts
    [of ?env "''john''"
        "[Fill [], WaitForTimeout 300, AllTextContents [], Fill ''john'', Press ''Enter'',
          Poll False, Poll False, ExtractPatients 0, WaitForTimeout 2000,
          ExtractPatients 0, WaitForTimeout 2000]" 1 "[]"] tr
  show ?thesis by simp
qed

text \<open>
  C4. Every run of \<^verbatim>\<open>searchPatient\<close> makes its calls in one order: the input is
  cleared, the row texts are captured (from the rows of moment 2), then the query is filled
  in (moment 3) and Enter is pressed (moment 4), and only then come the polls of the
  convergence wait and the extraction attempts. A run that fails early stops inside this
  sequence; no run reorders it.
\<close>

theorem searchPatient_order:
  "prefix (snd (searchPatient env query []))
     [Fill [], WaitForTimeout 300, AllTextContents (map row_text (domAt env 2)),
      Fill query, Press ''Enter''] \<or>
   (\<exists>rest. snd (searchPatient env query []) =
        [Fill [], WaitForTimeout 300, AllTextContents (map row_text (domAt env 2)),
         Fill query, Press ''Enter''] @ rest \<and>
      list_all afterTrigger rest)"
proof -
  obtain r tr where run: "searchPatient env query [] = (r, tr)"
    by (cases "searchPatient env query []")
  let ?pre = "searchPrefix (map row_text (domAt env 2)) query"
  let ?rounds = "\<lambda>k. concat (replicate k [ExtractPatients 0, WaitForTimeout 2000])"
  have late: "\<exists>rest. tr = ?pre @ rest \<and> list_all afterTrigger rest"
    if "tr = ?pre @ ps @ ?rounds k @ ext" "list_all isPoll ps" "list_all afterTrigger ext"
    for ps k ext
  proof -
    have "list_all afterTrigger (ps @ ?rounds k @ ext)"
      using that(3) list_all_afterTrigger_polls[OF that(2)] list_all_afterTrigger_rounds[of k]
      by simp
    with that(1) show ?thesis by (intro exI[of _ "ps @ ?rounds k @ ext"]) simp
  qed
  from run have "prefix tr ?pre \<or> (\<exists>rest. tr = ?pre @ rest \<and> list_all afterTrigger rest)"
  proof (cases rule: searchPatient_cases)
    case (early k)
    then show ?thesis by (simp add: take_is_prefix)
  next
    case (failed ps k ext)
    have "list_all afterTrigger ext" using failed(4) by (auto simp: afterTrigger_def)
    from late[OF failed(1,2) this] show ?thesis by (rule disjI2)
  next
    case (exhausted ps)
    have "\<exists>rest. tr = ?pre @ rest \<and> list_all afterTrigger rest"
      using late[of ps 5 "[]"] exhausted(1,2) by simp
    then show ?thesis by (rule disjI2)
  next
    case (found ps k found)
    have "list_all afterTrigger [ExtractPatients (length found)]"
      by (simp add: afterTrigger_def)
    from late[OF found(1,2) this] show ?thesis by (rule disjI2)
  qed
  with run show ?thesis by (simp add: searchPrefix_def)
qed

text \<open>
  C2, as the code has it. \<^verbatim>\<open>searchPatient\<close> raises only when a call on the page
  fails. A result with no patient is returned as data after five extraction attempts that
  each found nothing: its \<open>success\<close> flag is true (the code sets it to true on every
  return), \<open>hasResults\<close> is false, \<open>resultCount\<close> is 0 and the message says that no
  patient was found.
\<close>

theorem searchPatient_not_found:
  "((\<forall>t. \<not> fails env t) \<longrightarrow> (\<exists>res. fst (searchPatient env query []) = Inr res)) \<and>
   (fst (searchPatient env query []) = Inr res \<and> patients res = [] \<longrightarrow>
      success res \<and> \<not> hasResults res \<and> resultCount res = 0 \<and>
      message res = ''No patients found matching '' @ [CHR 0x22] @ query @ [CHR 0x22] \<and>
      filter isExtract (snd (searchPatient env query [])) = replicate 5 (ExtractPatients 0)) \<and>
   ((\<forall>t. \<not> fails env t) \<and> (\<forall>t. extractRows query 0 (domAt env t) = []) \<longrightarrow>
      fst (searchPatient env query []) =
        Inr \<lparr>success = True, hasResults = False, resultCount = 0, patients = [],
             message = ''No patients found matching '' @ [CHR 0x22] @ query @ [CHR 0x22]\<rparr>)"
proof -
  obtain r tr where run: "searchPatient env query [] = (r, tr)"
    by (cases "searchPatient env query []")
  let ?none = "\<lparr>success = True, hasResults = False, resultCount = 0, patients = [],
             message = ''No patients found matching '' @ [CHR 0x22] @ query @ [CHR 0x22]\<rparr>"
  have returns: "\<exists>res. r = Inr res" if nofail: "\<forall>t. \<not> fails env t"
    using run
  proof (cases rule: searchPatient_cases)
    case (early k)
    from early(3) nofail show ?thesis by simp
  next
    case (failed ps k ext)
    from failed(6) nofail show ?thesis by simp
  next
    case (exhausted ps)
    from exhausted(3) show ?thesis by simp
  next
    case (found ps k found)
    from found(6) show ?thesis by simp
  qed
  have empty: "res = ?none \<and> filter isExtract tr = replicate 5 (ExtractPatients 0)"
    if r: "r = Inr res" and p: "patients res = []"
    using run
  proof (cases rule: searchPatient_cases)
    case (early k)
    from early(2) r show ?thesis by simp
  next
    case (failed ps k ext)
    from failed(5) r show ?thesis by simp
  next
    case (exhausted ps)
    have "filter isExtract tr = replicate 5 (ExtractPatients 0)"
      unfolding exhausted(1)
      by (simp add: filter_isExtract_rounds filter_isExtract_polls[OF exhausted(2)]
          searchPrefix_def)
    moreover have "res = ?none" using exhausted(3) r by simp
    ultimately show ?thesis by simp
  next
    case (found ps k found)
    from found(6) r have "patients res = found" by auto
    with p found(4) show ?thesis by simp
  qed
  have none: "r = Inr ?none"
    if nofail: "\<forall>t. \<not> fails env t" and norows: "\<forall>t. extractRows query 0 (domAt env t) = []"
    using run
  proof (cases rule: searchPatient_cases)
    case (early k)
    from early(3) nofail show ?thesis by simp
  next
    case (failed ps k ext)
    from failed(6) nofail show ?thesis by simp
  next
    case (exhausted ps)
    from exhausted(3) show ?thesis .
  next
    case (found ps k found)
    from norows have "extractRows query 0 (domAt env (length tr - 1)) = []" by (rule spec)
    then have "found = []" by (subst found(5))
    with found(4) show ?thesis by simp
  qed
  have fst_run: "fst (searchPatient env query []) = r" and snd_run: "snd (searchPatient env query []) = tr"
    using run by simp_all
  show ?thesis
  proof (intro conjI impI)
    assume "\<forall>t. \<not> fails env t"
    from returns[OF this] show "\<exists>res. fst (searchPatient env query []) = Inr res"
      unfolding fst_run .
  next
    assume h: "fst (searchPatient env query []) = Inr res \<and> patients res = []"
    then have "r = Inr res" "patients res = []" unfolding fst_run by simp_all
    from empty[OF this] have e: "res = ?none"
      and f: "filter isExtract tr = replicate 5 (ExtractPatients 0)" by simp_all
    show "success res" using e by simp
    show "\<not> hasResults res" using e by simp
    show "resultCount res = 0" using e by simp
    show "message res = ''No patients found matching '' @ [CHR 0x22] @ query @ [CHR 0x22]"
      using e by simp
    show "filter isExtract (snd (searchPatient env query [])) = replicate 5 (ExtractPatients 0)"
      unfolding snd_run by (rule f)
  next
    assume "(\<forall>t. \<not> fails env t) \<and> (\<forall>t. extractRows query 0 (domAt env t) = [])"
    then have "\<forall>t. \<not> fails env t" "\<forall>t. extractRows query 0 (domAt env t) = []" by simp_all
    from none[OF this] show "fst (searchPatient env query []) = Inr ?none"
      unfolding fst_run .
  qed
qed

theorem searchPatient_not_found_witness:
  "fst (searchPatient \<lparr>domAt = (\<lambda>t. []), fails = (\<lambda>t. False), polls = 2\<rparr> ''john'' [])
   = Inr \<lparr>success = True, hasResults = False, resultCount = 0, patients = [],
          message = ''No patients found matching '' @ [CHR 0x22] @ ''john'' @ [CHR 0x22]\<rparr> \<and>
   extractRows ''john'' 0 [] = [] \<and>
   filter isExtract
     (snd (searchPatient \<lparr>domAt = (\<lambda>t. []), fails = (\<lambda>t. False), polls = 2\<rparr> ''john'' []))
   = replicate 5 (ExtractPatients 0)"
  using searchPatient_not_found
    [of "\<lparr>domAt = (\<lambda>t. []), fails = (\<lambda>t. False), polls = 2\<rparr>" "''john''"
        "\<lparr>success = True, hasResults = False, resultCount = 0, patients = [],
          message = ''No patients found matching '' @ [CHR 0x22] @ ''john'' @ [CHR 0x22]\<rparr>"]
  by simp

text \<open>
  C2, as the specification states it, fails: after five attempts that each found nothing
  the result has the \<open>success\<close> flag true, not false.
\<close>

theorem searchPatient_success_flag_counterexample:
  "fst (searchPatient \<lparr>domAt = (\<lambda>t. []), fails = (\<lambda>t. False), polls = 2\<rparr> ''john'' [])
   = Inr \<lparr>success = True, hasResults = False, resultCount = 0, patients = [],
          message = ''No patients found matching '' @ [CHR 0x22] @ ''john'' @ [CHR 0x22]\<rparr> \<and>
   filter isExtract
     (snd (searchPatient \<lparr>domAt = (\<lambda>t. []), fails = (\<lambda>t. False), polls = 2\<rparr> ''john'' []))
   = replicate 5 (ExtractPatients 0)"
  by code_simp

text \<open>
  C10. Every patient of the list \<^verbatim>\<open>searchPatient\<close> returns comes from a row (of one
  and the same state of the table) with at least two cells; its name is the trimmed text
  of the second cell, is not empty and contains the query, case ignored. \<open>hasResults\<close>
  is true if and only if the list is not empty, and \<open>resultCount\<close> is its length.
\<close>

theorem searchPatient_result_filter:
  "fst (searchPatient env query []) = Inr res \<longrightarrow>
     (\<exists>t. \<forall>p\<in>set (patients res).
        index p < length (domAt env t) \<and>
        2 \<le> length (row_cells (domAt env t ! index p)) \<and>
        name p = trim (row_cells (domAt env t ! index p) ! 1) \<and>
        name p \<noteq> [] \<and> containsIgnoreCase (name p) query) \<and>
     (hasResults res \<longleftrightarrow> patients res \<noteq> []) \<and>
     resultCount res = length (patients res)"
proof
  assume res: "fst (searchPatient env query []) = Inr res"
  obtain r tr where run: "searchPatient env query [] = (r, tr)"
    by (cases "searchPatient env query []")
  with res have r: "r = Inr res" by simp
  let ?ok = "\<lambda>t p. index p < length (domAt env t) \<and>
        2 \<le> length (row_cells (domAt env t ! index p)) \<and>
        name p = trim (row_cells (domAt env t ! index p) ! 1) \<and>
        name p \<noteq> [] \<and> containsIgnoreCase (name p) query"
  from run show "(\<exists>t. \<forall>p\<in>set (patients res). ?ok t p) \<and>
     (hasResults res \<longleftrightarrow> patients res \<noteq> []) \<and>
     resultCount res = length (patients res)"
  proof (cases rule: searchPatient_cases)
    case (early k)
    with r show ?thesis by simp
  next
    case (failed ps k ext)
    from r failed(5) show ?thesis by simp
  next
    case (exhausted ps)
    from r exhausted(3) have "patients res = []" "\<not> hasResults res" "resultCount res = 0"
      by auto
    then show ?thesis by simp
  next
    case (found ps k found)
    from r found(6) have p: "patients res = found" and h: "hasResults res"
      and c: "resultCount res = length found"
      by auto
    have "\<forall>p\<in>set found. ?ok (length tr - 1) p"
    proof
      fix p assume "p \<in> set found"
      then have "p \<in> set (extractRows query 0 (domAt env (length tr - 1)))"
        using found(5) by simp
      from extractRows_sound[OF this] show "?ok (length tr - 1) p"
        by (elim conjE) simp
    qed
    then have "\<exists>t. \<forall>p\<in>set found. ?ok t p" by (rule exI)
    with p h c found(4) show ?thesis by simp
  qed
qed

theorem searchPatient_result_filter_witness:
  "fst (searchPatient
          \<lparr>domAt = (\<lambda>t. [\<lparr>row_text = ''100JJJane SmithF'', row_cells = [''100JJJ'', ''Jane Smith'', ''F'']\<rparr>,
                         \<lparr>row_text = ''100N07 John Doe M'', row_cells = [''100N07'', '' John Doe '', ''M'']\<rparr>]),
           fails = (\<lambda>t. False), polls = 1\<rparr> ''john'' [])
   = Inr \<lparr>success = True, hasResults = True, resultCount = 1,
          patients = [\<lparr>index = 1, name = ''John Doe'', patientId = ''100N07'',
                       gender = ''M'', age = []\<rparr>],
          message = ''Found 1 patients matching '' @ [CHR 0x22] @ ''john'' @ [CHR 0x22]\<rparr> \<and>
   (\<exists>t. \<forall>p\<in>set [\<lparr>index = 1, name = ''John Doe'', patientId = ''100N07'', gender = ''M'', age = []\<rparr>].
      index p <
        length (domAt \<lparr>domAt = (\<lambda>t. [\<lparr>row_text = ''100JJJane SmithF'', row_cells = [''100JJJ'', ''Jane Smith'', ''F'']\<rparr>,
                         \<lparr>row_text = ''100N07 John Doe M'', row_cells = [''100N07'', '' John Doe '', ''M'']\<rparr>]),
           fails = (\<lambda>t. False), polls = 1\<rparr> t) \<and>
      name p \<noteq> [] \<and> containsIgnoreCase (name p) ''john'')"
proof -
  let ?env = "\<lparr>domAt = (\<lambda>t. [\<lparr>row_text = ''100JJJane SmithF'', row_cells = [''100JJJ'', ''Jane Smith'', ''F'']\<rparr>,
                         \<lparr>row_text = ''100N07 John Doe M'', row_cells = [''100N07'', '' John Doe '', ''M'']\<rparr>]),
           fails = (\<lambda>t. False), polls = 1\<rparr>"
  let ?res = "\<lparr>success = True, hasResults = True, resultCount = 1,
          patients = [\<lparr>index = 1, name = ''John Doe'', patientId = ''100N07'',
                       gender = ''M'', age = []\<rparr>],
          message = ''Found 1 patients matching '' @ [CHR 0x22] @ ''john'' @ [CHR 0x22]\<rparr>"
  have r: "fst (searchPatient ?env ''john'' []) = Inr ?res"
    by code_simp
  from searchPatient_result_filter[of ?env "''john''" ?res] r
  show ?thesis by auto
qed

end
